theory Spec2Isabelle
  imports Main "HOL-Library.Char_ord" "HOL-Library.List_Lexorder" "HOL-Library.Product_Lexorder"
begin

section \<open>Python strings\<close>

text \<open>
  The program is \<^verbatim>\<open>src/src/cc_changelog_gen/app.py\<close>. Its strings are modelled as
  \<^typ>\<open>string\<close>; the model covers ASCII text. A character outside ASCII belongs to no
  character class and has no other case here, whereas Python consults the Unicode tables.
\<close>

definition newline :: char where
  "newline = CHR 0x0A"

definition bslash :: char where
  \<comment> \<open>The backslash, which a string literal of the logic cannot hold.\<close>
  "bslash = CHR 0x5C"

definition is_upper :: "char \<Rightarrow> bool" where
  "is_upper c = (CHR ''A'' \<le> c \<and> c \<le> CHR ''Z'')"

definition is_lower :: "char \<Rightarrow> bool" where
  "is_lower c = (CHR ''a'' \<le> c \<and> c \<le> CHR ''z'')"

definition is_digit :: "char \<Rightarrow> bool" where
  "is_digit c = (CHR ''0'' \<le> c \<and> c \<le> CHR ''9'')"

definition is_alpha :: "char \<Rightarrow> bool" where
  "is_alpha c = (is_upper c \<or> is_lower c)"

definition is_word :: "char \<Rightarrow> bool" where
  \<comment> \<open>\<^verbatim>\<open>\w\<close> on ASCII: letters, digits and the underscore.\<close>
  "is_word c = (is_alpha c \<or> is_digit c \<or> c = CHR ''_'')"

definition is_space :: "char \<Rightarrow> bool" where
  \<comment> \<open>\<^verbatim>\<open>\s\<close> on ASCII: blank, \<^verbatim>\<open>\t \n \v \f \r\<close> and the separators 0x1C to 0x1F.\<close>
  "is_space c = (c = CHR '' '' \<or> (CHR 0x09 \<le> c \<and> c \<le> CHR 0x0D) \<or> (CHR 0x1C \<le> c \<and> c \<le> CHR 0x1F))"

definition to_upper :: "char \<Rightarrow> char" where
  "to_upper c = (if is_lower c then char_of (of_char c - (32::nat)) else c)"

definition to_lower :: "char \<Rightarrow> char" where
  "to_lower c = (if is_upper c then char_of (of_char c + (32::nat)) else c)"

text \<open>\<^verbatim>\<open>str.capitalize()\<close>: the first character in upper case, all the others in lower case.\<close>

fun capitalize :: "string \<Rightarrow> string" where
  "capitalize [] = []"
| "capitalize (c # cs) = to_upper c # map to_lower cs"

text \<open>\<^verbatim>\<open>s.split(sep)\<close> for a separator of one character: always at least one piece.\<close>

fun split_on :: "char \<Rightarrow> string \<Rightarrow> string list" where
  "split_on sep [] = [[]]"
| "split_on sep (c # cs) =
     (if c = sep then [] # split_on sep cs
      else (case split_on sep cs of l # ls \<Rightarrow> (c # l) # ls | [] \<Rightarrow> [[c]]))"

definition split_nl :: "string \<Rightarrow> string list" where
  "split_nl s = split_on newline s"

text \<open>\<^verbatim>\<open>"\n".join(xs)\<close>.\<close>

fun join_nl :: "string list \<Rightarrow> string" where
  "join_nl [] = []"
| "join_nl [x] = x"
| "join_nl (x # y # ys) = x @ newline # join_nl (y # ys)"

section \<open>Regular expressions (the part of Python's \<^verbatim>\<open>re\<close> the program uses)\<close>

text \<open>
  Patterns reach the program as strings and are compiled by \<^verbatim>\<open>re\<close> at each call.
  The model parses the pattern text into a syntax tree and runs a backtracking matcher
  with Python's priorities (leftmost alternative first, greedy repetition). The syntax
  covered: literals, \<^verbatim>\<open>.\<close>, \<^verbatim>\<open>^\<close>, \<^verbatim>\<open>$\<close>, the escapes
  \<^verbatim>\<open>\w \W \s \S \d \D \n \t \r\<close> and escaped punctuation, sets \<^verbatim>\<open>[...]\<close> and
  \<^verbatim>\<open>[^...]\<close>, groups \<^verbatim>\<open>(...)\<close> and \<^verbatim>\<open>(?:...)\<close>, alternation and the greedy
  quantifiers \<^verbatim>\<open>* + ?\<close>. A pattern that \<^verbatim>\<open>re\<close> rejects is \<open>ReError\<close>; a pattern
  outside this syntax is \<open>Unsupported\<close>, and the model says nothing about it.
\<close>

datatype error = ReError | Unsupported | IndexError | TypeError | KeyError

datatype ccat = Word | Space | Digit

datatype citem = IChar char | IRange char char | ICat bool ccat

datatype regex =
    Eps
  | Lit char
  | Dot
  | CSet bool "citem list"
  | Bol
  | Eol
  | Seq regex regex
  | Alt regex regex
  | Star regex
  | Plus regex
  | Opt regex
  | Grp regex
  | NGrp regex

subsection \<open>Parsing the pattern text\<close>

datatype gkind = Capturing | NonCapturing

text \<open>
  A frame is a group being read: its kind, the alternatives already closed (latest first)
  and the items of the current alternative (latest first).
\<close>

type_synonym frame = "gkind \<times> regex list \<times> regex list"

datatype pmode = Normal | InSet bool "citem list"

fun seq_of :: "regex list \<Rightarrow> regex" where
  "seq_of [] = Eps"
| "seq_of [r] = r"
| "seq_of (r # rs) = Seq r (seq_of rs)"

fun alt_of :: "regex list \<Rightarrow> regex" where
  "alt_of [] = Eps"
| "alt_of [r] = r"
| "alt_of (r # rs) = Alt r (alt_of rs)"

fun close_frame :: "frame \<Rightarrow> regex" where
  "close_frame (k, alts, cur) = alt_of (rev (seq_of (rev cur) # alts))"

fun push_item :: "regex \<Rightarrow> frame \<Rightarrow> frame" where
  "push_item r (k, alts, cur) = (k, alts, r # cur)"

fun next_alt :: "frame \<Rightarrow> frame" where
  "next_alt (k, alts, cur) = (k, seq_of (rev cur) # alts, [])"

fun wrap_group :: "frame \<Rightarrow> regex" where
  "wrap_group (Capturing, alts, cur) = Grp (close_frame (Capturing, alts, cur))"
| "wrap_group (NonCapturing, alts, cur) = NGrp (close_frame (NonCapturing, alts, cur))"

fun is_repeat :: "regex \<Rightarrow> bool" where
  "is_repeat (Star r) = True"
| "is_repeat (Plus r) = True"
| "is_repeat (Opt r) = True"
| "is_repeat r = False"

fun is_at :: "regex \<Rightarrow> bool" where
  "is_at Bol = True"
| "is_at Eol = True"
| "is_at r = False"

text \<open>
  A quantifier applies to the last item read; \<^verbatim>\<open>re\<close> raises "nothing to repeat" when
  there is none or it is an anchor, and "multiple repeat" when it is a repetition.
\<close>

fun quantify :: "(regex \<Rightarrow> regex) \<Rightarrow> frame \<Rightarrow> error + frame" where
  "quantify q (k, alts, []) = Inl ReError"
| "quantify q (k, alts, r # cur) =
     (if is_at r \<or> is_repeat r then Inl ReError else Inr (k, alts, q r # cur))"

definition class_escape :: "char \<Rightarrow> citem option" where
  "class_escape e =
     (if e = CHR ''w'' then Some (ICat True Word)
      else if e = CHR ''W'' then Some (ICat False Word)
      else if e = CHR ''s'' then Some (ICat True Space)
      else if e = CHR ''S'' then Some (ICat False Space)
      else if e = CHR ''d'' then Some (ICat True Digit)
      else if e = CHR ''D'' then Some (ICat False Digit)
      else None)"

definition char_escape :: "char \<Rightarrow> char option" where
  \<comment> \<open>An escaped letter or digit other than these is a back reference, an assertion or an
      error in \<^verbatim>\<open>re\<close>; an escaped punctuation character stands for itself.\<close>
  "char_escape e =
     (if e = CHR ''n'' then Some newline
      else if e = CHR ''t'' then Some (CHR 0x09)
      else if e = CHR ''r'' then Some (CHR 0x0D)
      else if is_alpha e \<or> is_digit e \<or> \<not> (CHR 0x20 < e \<and> e < CHR 0x7F) then None
      else Some e)"

definition escape_item :: "char \<Rightarrow> citem option" where
  "escape_item e =
     (case class_escape e of
        Some i \<Rightarrow> Some i
      | None \<Rightarrow> map_option IChar (char_escape e))"

definition escape_regex :: "char \<Rightarrow> regex option" where
  "escape_regex e =
     (case class_escape e of
        Some i \<Rightarrow> Some (CSet False [i])
      | None \<Rightarrow> map_option Lit (char_escape e))"

definition lazy_follows :: "string \<Rightarrow> bool" where
  \<comment> \<open>A quantifier followed by \<^verbatim>\<open>?\<close> or \<^verbatim>\<open>+\<close> is lazy or possessive.\<close>
  "lazy_follows cs = (case cs of [] \<Rightarrow> False | d # _ \<Rightarrow> d = CHR ''?'' \<or> d = CHR ''+'')"

text \<open>Whether \<^verbatim>\<open>-\<close> and an upper bound follow in a set: the bound, if so.\<close>

fun range_bound :: "string \<Rightarrow> char option" where
  "range_bound (d # hi # cs) = (if d = CHR ''-'' \<and> hi \<noteq> CHR '']'' then Some hi else None)"
| "range_bound cs = None"

text \<open>
  The parser reads the pattern one character at a time. Its state: how many characters
  to pass over (those a step has already used as look-ahead), the mode, the open frame
  and the enclosing frames.
\<close>

type_synonym pstate = "nat \<times> pmode \<times> frame \<times> frame list"

definition set_step :: "char \<Rightarrow> string \<Rightarrow> bool \<Rightarrow> citem list \<Rightarrow> frame \<Rightarrow> frame list \<Rightarrow> error + pstate" where
  "set_step c cs neg items f st =
     (if c = CHR '']'' then
        (if items = [] then Inl Unsupported
         else Inr (0, Normal, push_item (CSet neg (rev items)) f, st))
      else if c = bslash then
        (case cs of
           [] \<Rightarrow> Inl ReError
         | e # cs' \<Rightarrow>
             (case escape_item e of
                None \<Rightarrow> Inl Unsupported
              | Some i \<Rightarrow>
                  if range_bound cs' \<noteq> None then Inl Unsupported
                  else Inr (1, InSet neg (i # items), f, st)))
      else if c = CHR ''['' then Inl Unsupported
      else
        (case range_bound cs of
           None \<Rightarrow> Inr (0, InSet neg (IChar c # items), f, st)
         | Some hi \<Rightarrow>
             if hi = bslash \<or> hi = CHR ''['' then Inl Unsupported
             else if hi < c then Inl ReError
             else Inr (2, InSet neg (IRange c hi # items), f, st)))"

definition normal_step :: "char \<Rightarrow> string \<Rightarrow> frame \<Rightarrow> frame list \<Rightarrow> error + pstate" where
  "normal_step c cs f st =
     (if c = bslash then
        (case cs of
           [] \<Rightarrow> Inl ReError
         | e # cs' \<Rightarrow>
             (case escape_regex e of
                None \<Rightarrow> Inl Unsupported
              | Some r \<Rightarrow> Inr (1, Normal, push_item r f, st)))
      else if c = CHR ''('' then
        (case cs of
           [] \<Rightarrow> Inl ReError
         | d # cs' \<Rightarrow>
             if d = CHR ''?'' then
               (case cs' of
                  [] \<Rightarrow> Inl ReError
                | d' # cs'' \<Rightarrow>
                    if d' = CHR '':'' then Inr (2, Normal, (NonCapturing, [], []), f # st)
                    else Inl Unsupported)
             else Inr (0, Normal, (Capturing, [], []), f # st))
      else if c = CHR '')'' then
        (case st of
           [] \<Rightarrow> Inl ReError
         | g # st' \<Rightarrow> Inr (0, Normal, push_item (wrap_group f) g, st'))
      else if c = CHR ''|'' then Inr (0, Normal, next_alt f, st)
      else if c = CHR ''*'' \<or> c = CHR ''+'' \<or> c = CHR ''?'' then
        (if lazy_follows cs then Inl Unsupported
         else
           (case quantify (if c = CHR ''*'' then Star else if c = CHR ''+'' then Plus else Opt) f of
              Inl e \<Rightarrow> Inl e
            | Inr f' \<Rightarrow> Inr (0, Normal, f', st)))
      else if c = CHR ''{'' then Inl Unsupported
      else if c = CHR ''['' then
        (case cs of
           [] \<Rightarrow> Inl ReError
         | d # cs' \<Rightarrow>
             if d = CHR ''^'' then Inr (1, InSet True [], f, st)
             else Inr (0, InSet False [], f, st))
      else if c = CHR ''.'' then Inr (0, Normal, push_item Dot f, st)
      else if c = CHR ''^'' then Inr (0, Normal, push_item Bol f, st)
      else if c = CHR ''$'' then Inr (0, Normal, push_item Eol f, st)
      else Inr (0, Normal, push_item (Lit c) f, st))"

fun parse_step :: "char \<Rightarrow> string \<Rightarrow> pstate \<Rightarrow> error + pstate" where
  "parse_step c cs (Suc k, m, f, st) = Inr (k, m, f, st)"
| "parse_step c cs (0, Normal, f, st) = normal_step c cs f st"
| "parse_step c cs (0, InSet neg items, f, st) = set_step c cs neg items f st"

text \<open>At the end of the text no set and no group may be open.\<close>

fun parse_end :: "pstate \<Rightarrow> error + regex" where
  "parse_end (k, Normal, f, []) = Inr (close_frame f)"
| "parse_end (k, Normal, f, g # st) = Inl ReError"
| "parse_end (k, InSet neg items, f, st) = Inl ReError"

fun parse_re :: "string \<Rightarrow> pstate \<Rightarrow> error + regex" where
  "parse_re [] ps = parse_end ps"
| "parse_re (c # cs) ps =
     (case parse_step c cs ps of
        Inl e \<Rightarrow> Inl e
      | Inr ps' \<Rightarrow> parse_re cs ps')"

text \<open>\<^verbatim>\<open>re.compile(p)\<close>. The outermost frame is never closed by a parenthesis.\<close>

definition compile :: "string \<Rightarrow> error + regex" where
  "compile p = parse_re p (0, Normal, (NonCapturing, [], []), [])"

subsection \<open>Matching\<close>

fun in_cat :: "ccat \<Rightarrow> char \<Rightarrow> bool" where
  "in_cat Word c = is_word c"
| "in_cat Space c = is_space c"
| "in_cat Digit c = is_digit c"

fun in_item :: "citem \<Rightarrow> char \<Rightarrow> bool" where
  "in_item (IChar d) c = (c = d)"
| "in_item (IRange lo hi) c = (lo \<le> c \<and> c \<le> hi)"
| "in_item (ICat pos k) c = (in_cat k c = pos)"

text \<open>The number of capturing groups; they are numbered from 1 by their opening parenthesis.\<close>

primrec ngroups :: "regex \<Rightarrow> nat" where
  "ngroups Eps = 0"
| "ngroups (Lit c) = 0"
| "ngroups Dot = 0"
| "ngroups (CSet neg items) = 0"
| "ngroups Bol = 0"
| "ngroups Eol = 0"
| "ngroups (Seq a b) = ngroups a + ngroups b"
| "ngroups (Alt a b) = ngroups a + ngroups b"
| "ngroups (Star a) = ngroups a"
| "ngroups (Plus a) = ngroups a"
| "ngroups (Opt a) = ngroups a"
| "ngroups (Grp a) = Suc (ngroups a)"
| "ngroups (NGrp a) = ngroups a"

text \<open>
  A matcher state is the position reached and the span of every group (\<open>None\<close> for a
  group that has not taken part). The matcher returns every way of matching from a
  state, in the order in which a backtracking matcher tries them: the head of the list is
  the match \<^verbatim>\<open>re\<close> reports.
\<close>

type_synonym mstate = "nat \<times> (nat \<times> nat) option list"

text \<open>
  A greedy repetition tries one more round of its body before it tries to stop. A round
  that consumes nothing is the last one. Every other round consumes a character, so there
  are at most as many of them as characters left: that is the bound \<open>n\<close>.
\<close>

primrec star_iter :: "(mstate \<Rightarrow> mstate list) \<Rightarrow> nat \<Rightarrow> mstate \<Rightarrow> mstate list" where
  "star_iter f 0 st = [st]"
| "star_iter f (Suc n) st =
     concat (map (\<lambda>st'. if fst st < fst st' then star_iter f n st' else [st']) (f st)) @ [st]"

primrec rmatch :: "regex \<Rightarrow> string \<Rightarrow> nat \<Rightarrow> mstate \<Rightarrow> mstate list" where
  "rmatch Eps s i = (\<lambda>st. [st])"
| "rmatch (Lit c) s i =
     (\<lambda>st. if fst st < length s \<and> s ! fst st = c then [(Suc (fst st), snd st)] else [])"
| "rmatch Dot s i =
     (\<lambda>st. if fst st < length s \<and> s ! fst st \<noteq> newline then [(Suc (fst st), snd st)] else [])"
| "rmatch (CSet neg items) s i =
     (\<lambda>st. if fst st < length s \<and> (list_ex (\<lambda>it. in_item it (s ! fst st)) items \<noteq> neg)
           then [(Suc (fst st), snd st)] else [])"
| "rmatch Bol s i = (\<lambda>st. if fst st = 0 then [st] else [])"
| "rmatch Eol s i =
     (\<lambda>st. if fst st = length s \<or> (Suc (fst st) = length s \<and> s ! fst st = newline)
           then [st] else [])"
| "rmatch (Seq a b) s i = (\<lambda>st. concat (map (rmatch b s (i + ngroups a)) (rmatch a s i st)))"
| "rmatch (Alt a b) s i = (\<lambda>st. rmatch a s i st @ rmatch b s (i + ngroups a) st)"
| "rmatch (Star a) s i = (\<lambda>st. star_iter (rmatch a s i) (Suc (length s - fst st)) st)"
| "rmatch (Plus a) s i =
     (\<lambda>st. concat (map (\<lambda>st'. if fst st < fst st'
                                then star_iter (rmatch a s i) (Suc (length s - fst st')) st'
                                else [st'])
                         (rmatch a s i st)))"
| "rmatch (Opt a) s i = (\<lambda>st. rmatch a s i st @ [st])"
| "rmatch (Grp a) s i =
     (\<lambda>st. map (\<lambda>st'. (fst st', (snd st')[i := Some (fst st, fst st')])) (rmatch a s (Suc i) st))"
| "rmatch (NGrp a) s i = rmatch a s i"

text \<open>The text of a group: \<open>None\<close> is Python's \<^verbatim>\<open>None\<close> for a group that took no part.\<close>

fun group_text :: "string \<Rightarrow> (nat \<times> nat) option \<Rightarrow> string option" where
  "group_text s None = None"
| "group_text s (Some (a, b)) = Some (take (b - a) (drop a s))"

text \<open>
  A match object: where the match starts, where it ends, and \<^verbatim>\<open>groups()\<close>.
  \<open>match_at r s b adv\<close> is the match that starts at \<open>b\<close>; with \<open>adv\<close> an empty match is
  passed over (\<^verbatim>\<open>re\<close> does so right after an empty match at the same place).
\<close>

type_synonym match = "nat \<times> nat \<times> string option list"

definition match_at :: "regex \<Rightarrow> string \<Rightarrow> nat \<Rightarrow> bool \<Rightarrow> match option" where
  "match_at r s b adv =
     (case filter (\<lambda>st. \<not> (adv \<and> fst st = b)) (rmatch r s 0 (b, replicate (ngroups r) None)) of
        [] \<Rightarrow> None
      | st # _ \<Rightarrow> Some (b, fst st, map (group_text s) (snd st)))"

text \<open>
  All non-overlapping matches, left to right, as \<^verbatim>\<open>re.split\<close> and \<^verbatim>\<open>re.sub\<close> find
  them. The candidate starting points are tried in order; \<open>nxt\<close> is where the previous
  match ended, and \<open>adv\<close> tells that it was empty. After an empty match at \<open>b\<close> the search
  goes on at \<open>b\<close> itself, for a match that is not empty.
\<close>

primrec scan :: "regex \<Rightarrow> string \<Rightarrow> nat list \<Rightarrow> nat \<Rightarrow> bool \<Rightarrow> match list" where
  "scan r s [] nxt adv = []"
| "scan r s (b # bs) nxt adv =
     (if b < nxt then scan r s bs nxt adv
      else
        (case match_at r s b (adv \<and> b = nxt) of
           None \<Rightarrow> scan r s bs nxt adv
         | Some mt \<Rightarrow>
             mt #
             (if fst (snd mt) = b then
                (case match_at r s b True of
                   None \<Rightarrow> scan r s bs b True
                 | Some mt' \<Rightarrow> mt' # scan r s bs (fst (snd mt')) False)
              else scan r s bs (fst (snd mt)) False)))"

definition finditer :: "regex \<Rightarrow> string \<Rightarrow> match list" where
  "finditer r s = scan r s [0..<Suc (length s)] 0 False"

text \<open>
  \<^verbatim>\<open>re.split\<close>: the text before each match, then the groups of the match, and at the end
  the text after the last match.
\<close>

fun split_pieces :: "string \<Rightarrow> nat \<Rightarrow> match list \<Rightarrow> string option list" where
  "split_pieces s k [] = [Some (drop k s)]"
| "split_pieces s k ((b, e, gs) # ms) =
     Some (take (b - k) (drop k s)) # gs @ split_pieces s e ms"

subsection \<open>Replacement templates\<close>

datatype titem = TLit char | TGroup nat

text \<open>
  The replacement text of \<^verbatim>\<open>re.sub\<close>: a backslash and a digit from 1 to 9 stand for a
  group, two backslashes for one, \<^verbatim>\<open>\n\<close> for a newline. Other escapes are outside the model.
\<close>

fun parse_template :: "string \<Rightarrow> error + titem list" where
  "parse_template [] = Inr []"
| "parse_template [c] = (if c = bslash then Inl ReError else Inr [TLit c])"
| "parse_template (c # d # cs) =
     (if c \<noteq> bslash then
        (case parse_template (d # cs) of Inl e \<Rightarrow> Inl e | Inr t \<Rightarrow> Inr (TLit c # t))
      else if d = bslash \<or> d = CHR ''n'' then
        (case parse_template cs of
           Inl e \<Rightarrow> Inl e
         | Inr t \<Rightarrow> Inr (TLit (if d = CHR ''n'' then newline else d) # t))
      else if CHR ''1'' \<le> d \<and> d \<le> CHR ''9'' \<and> \<not> (case cs of [] \<Rightarrow> False | d' # _ \<Rightarrow> is_digit d') then
        (case parse_template cs of
           Inl e \<Rightarrow> Inl e
         | Inr t \<Rightarrow> Inr (TGroup (of_char d - 48) # t))
      else Inl Unsupported)"

fun template_ok :: "nat \<Rightarrow> titem \<Rightarrow> bool" where
  "template_ok n (TLit c) = True"
| "template_ok n (TGroup k) = (k \<le> n)"

text \<open>A group that took no part is replaced by the empty string.\<close>

fun expand_item :: "string option list \<Rightarrow> titem \<Rightarrow> string" where
  "expand_item gs (TLit c) = [c]"
| "expand_item gs (TGroup k) = (case gs ! (k - 1) of None \<Rightarrow> [] | Some g \<Rightarrow> g)"

fun sub_pieces :: "titem list \<Rightarrow> string \<Rightarrow> nat \<Rightarrow> match list \<Rightarrow> string" where
  "sub_pieces t s k [] = drop k s"
| "sub_pieces t s k ((b, e, gs) # ms) =
     take (b - k) (drop k s) @ concat (map (expand_item gs) t) @ sub_pieces t s e ms"

subsection \<open>The calls the program makes\<close>

text \<open>\<^verbatim>\<open>re.match(p, s)\<close>: \<open>None\<close> or \<^verbatim>\<open>groups()\<close> of the match at the start of \<open>s\<close>.\<close>

definition re_match :: "string \<Rightarrow> string \<Rightarrow> error + string option list option" where
  "re_match p s =
     (case compile p of
        Inl e \<Rightarrow> Inl e
      | Inr r \<Rightarrow> Inr (map_option (\<lambda>mt. snd (snd mt)) (match_at r s 0 False)))"

definition re_split :: "string \<Rightarrow> string \<Rightarrow> error + string option list" where
  "re_split p s =
     (case compile p of
        Inl e \<Rightarrow> Inl e
      | Inr r \<Rightarrow> Inr (split_pieces s 0 (finditer r s)))"

definition re_sub :: "string \<Rightarrow> string \<Rightarrow> string \<Rightarrow> error + string" where
  "re_sub p repl s =
     (case compile p of
        Inl e \<Rightarrow> Inl e
      | Inr r \<Rightarrow>
          (case parse_template repl of
             Inl e \<Rightarrow> Inl e
           | Inr t \<Rightarrow>
               if list_all (template_ok (ngroups r)) t
               then Inr (sub_pieces t s 0 (finditer r s))
               else Inl ReError))"

section \<open>The configuration and the classifier\<close>

text \<open>Python's \<^verbatim>\<open>xs[i]\<close> for \<open>i \<ge> 0\<close> and \<^verbatim>\<open>xs[-1]\<close>: out of range they raise IndexError.\<close>

definition item :: "'a list \<Rightarrow> nat \<Rightarrow> error + 'a" where
  "item xs i = (if i < length xs then Inr (xs ! i) else Inl IndexError)"

definition last_item :: "'a list \<Rightarrow> error + 'a" where
  "last_item xs = (case rev xs of [] \<Rightarrow> Inl IndexError | x # _ \<Rightarrow> Inr x)"

text \<open>
  A piece of \<^verbatim>\<open>re.split\<close> or a group handed to \<^verbatim>\<open>re.sub\<close> as the text to work on:
  \<^verbatim>\<open>None\<close> there raises TypeError, once the pattern and the replacement have been
  compiled, so an error in either of them comes first.
\<close>

definition re_sub_opt :: "string \<Rightarrow> string \<Rightarrow> string option \<Rightarrow> error + string" where
  "re_sub_opt p repl t =
     (case t of
        Some s \<Rightarrow> re_sub p repl s
      | None \<Rightarrow> (case re_sub p repl [] of Inl e \<Rightarrow> Inl e | Inr _ \<Rightarrow> Inl TypeError))"

record Processing =
  search :: string
  replace :: string

record Conf =
  pre_captures :: "string list"
  pre_captures_after_trim :: string
  type_captures :: "string list"
  type_captures_after_trim :: string
  type_captures_allow_breaking_change_group :: bool
  breaking_change_line_captures :: "string list"
  breaking_change_line_captures_after_trim :: string
  title_left_trim :: string
  title_right_trim :: string
  supported_types :: "(string \<times> string) list"
  headings :: "(string \<times> string) list"
  others_heading :: string
  breaking_changes_heading :: string
  capitalize_title_first_char :: bool
  preprocessing :: "Processing option"
  postprocessing :: "Processing option"

text \<open>The pattern text \<^verbatim>\<open>\s+\<close>, the default of every trim pattern.\<close>

definition ws_plus :: string where
  "ws_plus = [bslash, CHR ''s'', CHR ''+'']"

text \<open>The defaults of the class \<^verbatim>\<open>Conf\<close>.\<close>

definition default_conf :: Conf where
  "default_conf =
     \<lparr> pre_captures = [], pre_captures_after_trim = ws_plus,
       type_captures = [], type_captures_after_trim = ws_plus,
       type_captures_allow_breaking_change_group = True,
       breaking_change_line_captures = [], breaking_change_line_captures_after_trim = ws_plus,
       title_left_trim = ws_plus, title_right_trim = ws_plus,
       supported_types = [], headings = [],
       others_heading = ''Others'', breaking_changes_heading = ''BREAKING CHANGES'',
       capitalize_title_first_char = True,
       preprocessing = None, postprocessing = None \<rparr>"

datatype TypeMatch = SUPPORTED_TYPE | OTHERS

text \<open>
  \<open>type_capture\<close> holds what \<^verbatim>\<open>group(1)\<close> returned: \<open>None\<close> when the first group took no
  part in the match.
\<close>

record TypeCaptureOutput =
  title :: string
  type_capture :: "string option"
  type_match :: TypeMatch
  is_breaking_change :: bool

definition enhance_title :: "string \<Rightarrow> bool \<Rightarrow> string" where
  "enhance_title t capitalize_first = (if capitalize_first then capitalize t else t)"

text \<open>
  \<^verbatim>\<open>process_pre_capture\<close>. The loop tries the patterns in order and stops after the first
  that matches at the start of the title; the title becomes element 1 of
  \<^verbatim>\<open>re.split(rf"^{pc}", title)\<close>, trimmed.
\<close>

fun process_pre_capture :: "string \<Rightarrow> string list \<Rightarrow> string \<Rightarrow> error + string" where
  "process_pre_capture t [] trim = Inr t"
| "process_pre_capture t (pc # pcs) trim =
     (case re_match (CHR ''^'' # pc) t of
        Inl e \<Rightarrow> Inl e
      | Inr None \<Rightarrow> process_pre_capture t pcs trim
      | Inr (Some gs) \<Rightarrow>
          (case re_split (CHR ''^'' # pc) t of
             Inl e \<Rightarrow> Inl e
           | Inr parts \<Rightarrow>
               (case item parts 1 of
                  Inl e \<Rightarrow> Inl e
                | Inr t' \<Rightarrow> re_sub_opt (CHR ''^'' # trim) [] t')))"

text \<open>
  The loop of \<^verbatim>\<open>process_type_capture\<close>: \<open>None\<close> when no pattern matched, else the title
  left, the type token, the breaking-change flag and the kind of match.
\<close>

fun type_capture_loop ::
  "string \<Rightarrow> string list \<Rightarrow> string \<Rightarrow> bool \<Rightarrow> (string \<times> string) list \<Rightarrow>
   error + (string \<times> string option \<times> bool \<times> TypeMatch) option" where
  "type_capture_loop t [] trim allow_group types = Inr None"
| "type_capture_loop t (tc # tcs) trim allow_group types =
     (case re_match (CHR ''^'' # tc) t of
        Inl e \<Rightarrow> Inl e
      | Inr None \<Rightarrow> type_capture_loop t tcs trim allow_group types
      | Inr (Some gs) \<Rightarrow>
          (case item gs 0 of
             Inl e \<Rightarrow> Inl e
           | Inr tok \<Rightarrow>
               (case re_split (CHR ''^'' # tc) t of
                  Inl e \<Rightarrow> Inl e
                | Inr parts \<Rightarrow>
                    (case last_item parts of
                       Inl e \<Rightarrow> Inl e
                     | Inr t' \<Rightarrow>
                         (case re_sub_opt (CHR ''^'' # trim) [] t' of
                            Inl e \<Rightarrow> Inl e
                          | Inr t'' \<Rightarrow>
                              Inr (Some (t'', tok, allow_group \<and> length gs \<ge> 2,
                                if (case tok of None \<Rightarrow> False | Some k \<Rightarrow> k \<in> set (map fst types))
                                then SUPPORTED_TYPE else OTHERS)))))))"

definition process_type_capture ::
  "string \<Rightarrow> string list \<Rightarrow> string \<Rightarrow> bool \<Rightarrow> string \<Rightarrow> string \<Rightarrow> (string \<times> string) list \<Rightarrow> bool \<Rightarrow>
   error + TypeCaptureOutput" where
  "process_type_capture t tcs trim allow_group left_trim right_trim types capitalize_first =
     (case type_capture_loop t tcs trim allow_group types of
        Inl e \<Rightarrow> Inl e
      | Inr found \<Rightarrow>
          (let (t1, tok, brk, tm) =
                 (case found of None \<Rightarrow> (t, Some [], False, OTHERS) | Some r \<Rightarrow> r)
           in case re_sub (CHR ''^'' # left_trim) [] t1 of
                Inl e \<Rightarrow> Inl e
              | Inr t2 \<Rightarrow>
                  (case re_sub (right_trim @ ''$'') [] t2 of
                     Inl e \<Rightarrow> Inl e
                   | Inr t3 \<Rightarrow>
                       Inr \<lparr> title = enhance_title t3 capitalize_first, type_capture = tok,
                             type_match = tm, is_breaking_change = brk \<rparr>)))"

text \<open>
  \<^verbatim>\<open>process_breaking_change\<close>: for each pattern in order, the lines of the message in
  order; the first line the pattern matches gives the result. \<open>None\<close> is Python's
  \<^verbatim>\<open>None\<close>, returned when no pattern matches any line.
\<close>

fun breaking_change_lines :: "string \<Rightarrow> string list \<Rightarrow> string \<Rightarrow> bool \<Rightarrow> error + string option" where
  "breaking_change_lines bc [] trim capitalize_first = Inr None"
| "breaking_change_lines bc (msg # msgs) trim capitalize_first =
     (case re_match (CHR ''^'' # bc) msg of
        Inl e \<Rightarrow> Inl e
      | Inr None \<Rightarrow> breaking_change_lines bc msgs trim capitalize_first
      | Inr (Some gs) \<Rightarrow>
          (case re_split (CHR ''^'' # bc) msg of
             Inl e \<Rightarrow> Inl e
           | Inr parts \<Rightarrow>
               (case item parts 1 of
                  Inl e \<Rightarrow> Inl e
                | Inr m \<Rightarrow>
                    (case re_sub_opt (CHR ''^'' # trim) [] m of
                       Inl e \<Rightarrow> Inl e
                     | Inr m' \<Rightarrow> Inr (Some (enhance_title m' capitalize_first))))))"

fun process_breaking_change :: "string list \<Rightarrow> string list \<Rightarrow> string \<Rightarrow> bool \<Rightarrow> error + string option" where
  "process_breaking_change messages [] trim capitalize_first = Inr None"
| "process_breaking_change messages (bc # bcs) trim capitalize_first =
     (case breaking_change_lines bc messages trim capitalize_first of
        Inl e \<Rightarrow> Inl e
      | Inr (Some m) \<Rightarrow> Inr (Some m)
      | Inr None \<Rightarrow> process_breaking_change messages bcs trim capitalize_first)"

section \<open>The changelog document\<close>

text \<open>
  \<^verbatim>\<open>MarkdownContent\<close> by its contents: the dictionary \<^verbatim>\<open>values\<close> as an association list
  in insertion order, with its keys distinct. The run builds one aggregator, so nothing
  here depends on which objects are shared; the constructor's default arguments are the
  subject of the last section.
\<close>

record MarkdownContent =
  values_map :: "(string \<times> string list) list"
  others :: "string list"
  breaking_changes :: "string list"

definition empty_mdc :: MarkdownContent where
  "empty_mdc = \<lparr> values_map = [], others = [], breaking_changes = [] \<rparr>"

text \<open>\<^verbatim>\<open>get_values\<close> adds an empty bucket for a heading that has none.\<close>

definition get_values :: "MarkdownContent \<Rightarrow> string \<Rightarrow> MarkdownContent" where
  "get_values mdc heading =
     (if heading \<in> set (map fst (values_map mdc)) then mdc
      else mdc\<lparr>values_map := values_map mdc @ [(heading, [])]\<rparr>)"

text \<open>\<^verbatim>\<open>mdc.get_values(heading).append(t)\<close>: the list returned is the bucket itself.\<close>

definition append_value :: "MarkdownContent \<Rightarrow> string \<Rightarrow> string \<Rightarrow> MarkdownContent" where
  "append_value mdc heading t =
     (let mdc' = get_values mdc heading
      in mdc'\<lparr>values_map :=
           map (\<lambda>kv. if fst kv = heading then (fst kv, snd kv @ [t]) else kv) (values_map mdc')\<rparr>)"

definition append_points :: "string list \<Rightarrow> string" where
  "append_points points = join_nl (map (\<lambda>p. ''- '' @ p) points)"

definition append_section :: "string \<Rightarrow> string list \<Rightarrow> string" where
  "append_section heading points =
     ''## '' @ heading @ [newline, newline] @ append_points points @ [newline]"

text \<open>One round of the loop over \<^verbatim>\<open>headings.items()\<close>.\<close>

definition heading_step :: "MarkdownContent \<Rightarrow> string \<times> string \<Rightarrow> string \<Rightarrow> string" where
  "heading_step mdc kh content =
     (case map_of (values_map mdc) (fst kh) of
        None \<Rightarrow> content
      | Some points \<Rightarrow> content @ append_section (snd kh) points @ [newline])"

definition process_markdown ::
  "MarkdownContent \<Rightarrow> string \<Rightarrow> (string \<times> string) list \<Rightarrow> string \<Rightarrow> string \<Rightarrow> string" where
  "process_markdown mdc t hds others_hd breaking_hd =
     (let content = ''# '' @ t @ [newline, newline];
          content = fold (heading_step mdc) hds content;
          content = (if length (others mdc) > 0
                     then content @ append_section others_hd (others mdc) @ [newline]
                     else content);
          content = (if length (breaking_changes mdc) > 0
                     then content @ append_section breaking_hd (breaking_changes mdc)
                     else content)
      in content)"

section \<open>The loop over the commits\<close>

definition apply_processing :: "Processing option \<Rightarrow> string \<Rightarrow> error + string" where
  "apply_processing pr t =
     (case pr of None \<Rightarrow> Inr t | Some p \<Rightarrow> re_sub (search p) (replace p) t)"

text \<open>
  The classification of a subject as \<^verbatim>\<open>main\<close> computes it. For the parameter
  \<^verbatim>\<open>type_captures_allow_breaking_change_group\<close> the call in \<^verbatim>\<open>main\<close> passes
  \<^verbatim>\<open>c.breaking_change_line_captures_after_trim\<close>, a string, which the condition
  \<^verbatim>\<open>if (... and ...)\<close> takes as true when it is not empty.
\<close>

definition classify :: "Conf \<Rightarrow> string \<Rightarrow> error + TypeCaptureOutput" where
  "classify c subject =
     (case apply_processing (preprocessing c) subject of
        Inl e \<Rightarrow> Inl e
      | Inr t \<Rightarrow>
          (case process_pre_capture t (pre_captures c) (pre_captures_after_trim c) of
             Inl e \<Rightarrow> Inl e
           | Inr t' \<Rightarrow>
               process_type_capture t' (type_captures c) (type_captures_after_trim c)
                 (breaking_change_line_captures_after_trim c \<noteq> [])
                 (title_left_trim c) (title_right_trim c) (supported_types c)
                 (capitalize_title_first_char c)))"

text \<open>The explicit detector as \<^verbatim>\<open>main\<close> calls it, on the lines of the message.\<close>

definition explicit_breaking_change :: "Conf \<Rightarrow> string \<Rightarrow> error + string option" where
  "explicit_breaking_change c message =
     process_breaking_change (split_nl message) (breaking_change_line_captures c)
       (breaking_change_line_captures_after_trim c) (capitalize_title_first_char c)"

text \<open>Where the title of a classified commit goes.\<close>

definition collect :: "Conf \<Rightarrow> TypeCaptureOutput \<Rightarrow> string \<Rightarrow> MarkdownContent \<Rightarrow> error + MarkdownContent" where
  "collect c tco t mdc =
     (case type_match tco of
        SUPPORTED_TYPE \<Rightarrow>
          (case type_capture tco of
             None \<Rightarrow> Inl KeyError
           | Some tok \<Rightarrow>
               (case map_of (supported_types c) tok of
                  None \<Rightarrow> Inl KeyError
                | Some heading \<Rightarrow> Inr (append_value mdc heading t)))
      | OTHERS \<Rightarrow> Inr (mdc\<lparr>others := others mdc @ [t]\<rparr>))"

text \<open>
  \<^verbatim>\<open>x if x else y\<close> and \<^verbatim>\<open>if x:\<close> on an optional string: \<^verbatim>\<open>None\<close> and the empty
  string count as false.
\<close>

definition truthy :: "string option \<Rightarrow> bool" where
  "truthy x = (case x of None \<Rightarrow> False | Some s \<Rightarrow> s \<noteq> [])"

text \<open>
  The end of the body of the loop (lines 397 to 415), given the classification, the title
  and what the explicit detector returned: the title counts as the breaking change when
  the inline flag is set, a result of the detector that is not empty takes its place, and
  what was chosen is appended when it is not empty.
\<close>

definition record_breaking_change ::
  "TypeCaptureOutput \<Rightarrow> string \<Rightarrow> string option \<Rightarrow> MarkdownContent \<Rightarrow> MarkdownContent" where
  "record_breaking_change tco t explicit mdc =
     (let inline = (if is_breaking_change tco then Some t else None);
          chosen = (if truthy explicit then explicit else inline)
      in if truthy chosen
         then mdc\<lparr>breaking_changes :=
                    breaking_changes mdc @ [case chosen of None \<Rightarrow> [] | Some b \<Rightarrow> b]\<rparr>
         else mdc)"

text \<open>The body of the loop of \<^verbatim>\<open>main\<close> for one commit message.\<close>

definition process_commit :: "Conf \<Rightarrow> string \<Rightarrow> MarkdownContent \<Rightarrow> error + MarkdownContent" where
  "process_commit c message mdc =
     (case item (split_nl message) 0 of
        Inl e \<Rightarrow> Inl e
      | Inr subject \<Rightarrow>
     (case classify c subject of
        Inl e \<Rightarrow> Inl e
      | Inr tco \<Rightarrow>
     (case apply_processing (postprocessing c) (title tco) of
        Inl e \<Rightarrow> Inl e
      | Inr t \<Rightarrow>
     (case collect c tco t mdc of
        Inl e \<Rightarrow> Inl e
      | Inr mdc1 \<Rightarrow>
     (case explicit_breaking_change c message of
        Inl e \<Rightarrow> Inl e
      | Inr explicit \<Rightarrow> Inr (record_breaking_change tco t explicit mdc1))))))"

fun process_commits :: "Conf \<Rightarrow> string list \<Rightarrow> MarkdownContent \<Rightarrow> error + MarkdownContent" where
  "process_commits c [] mdc = Inr mdc"
| "process_commits c (m # ms) mdc =
     (case process_commit c m mdc of
        Inl e \<Rightarrow> Inl e
      | Inr mdc' \<Rightarrow> process_commits c ms mdc')"

text \<open>
  \<^verbatim>\<open>main\<close> from the commits on: the messages of the commits in the order of traversal,
  the release title, and the document printed. An exception leaves nothing printed.
\<close>

definition changelog :: "Conf \<Rightarrow> string \<Rightarrow> string list \<Rightarrow> error + string" where
  "changelog c t messages =
     (case process_commits c messages empty_mdc of
        Inl e \<Rightarrow> Inl e
      | Inr mdc \<Rightarrow>
          Inr (process_markdown mdc t (headings c) (others_heading c) (breaking_changes_heading c)))"

section \<open>Semantic versions (the part of the package \<^verbatim>\<open>semver\<close> the program uses)\<close>

text \<open>
  \<^verbatim>\<open>semver.Version\<close>: the three numbers, the pre-release and the build metadata as the
  text after \<^verbatim>\<open>-\<close> and after \<^verbatim>\<open>+\<close>.
\<close>

record Version =
  major :: nat
  minor :: nat
  patch :: nat
  prerelease :: "string option"
  build :: "string option"

definition nat_of_digits :: "string \<Rightarrow> nat" where
  "nat_of_digits s = foldl (\<lambda>n d. 10 * n + (of_char d - 48)) 0 s"

text \<open>A numeric identifier: digits, with no leading zero unless it is \<^verbatim>\<open>0\<close> itself.\<close>

definition numeric_id :: "string \<Rightarrow> bool" where
  "numeric_id s = (s \<noteq> [] \<and> list_all is_digit s \<and> (s = ''0'' \<or> take 1 s \<noteq> ''0''))"

definition id_char :: "char \<Rightarrow> bool" where
  "id_char c = (is_alpha c \<or> is_digit c \<or> c = CHR ''-'')"

definition prerelease_id :: "string \<Rightarrow> bool" where
  "prerelease_id s = (s \<noteq> [] \<and> list_all id_char s \<and> (if list_all is_digit s then numeric_id s else True))"

definition build_id :: "string \<Rightarrow> bool" where
  "build_id s = (s \<noteq> [] \<and> list_all id_char s)"

text \<open>
  The text of a version after its core, split into the pre-release (after a leading
  \<^verbatim>\<open>-\<close>, up to the first \<^verbatim>\<open>+\<close>) and the build metadata (after the first \<^verbatim>\<open>+\<close>).
\<close>

fun split_suffix :: "string \<Rightarrow> string option \<times> string option" where
  "split_suffix [] = (None, None)"
| "split_suffix (c # r) =
     (if c = CHR ''-'' then
        (Some (takeWhile (\<lambda>d. d \<noteq> CHR ''+'') r),
         (case dropWhile (\<lambda>d. d \<noteq> CHR ''+'') r of [] \<Rightarrow> None | _ # b \<Rightarrow> Some b))
      else (None, Some r))"

definition opt_all :: "(string \<Rightarrow> bool) \<Rightarrow> string option \<Rightarrow> bool" where
  "opt_all ok x = (case x of None \<Rightarrow> True | Some s \<Rightarrow> list_all ok (split_on (CHR ''.'') s))"

text \<open>
  \<^verbatim>\<open>Version.parse\<close>, with \<open>None\<close> for the ValueError of a text that is not a semantic
  version; \<^verbatim>\<open>Version.is_valid\<close> tells whether the text parses.
\<close>

definition parse_version :: "string \<Rightarrow> Version option" where
  "parse_version s =
     (let core = takeWhile (\<lambda>c. c \<noteq> CHR ''-'' \<and> c \<noteq> CHR ''+'') s;
          suffix = split_suffix (dropWhile (\<lambda>c. c \<noteq> CHR ''-'' \<and> c \<noteq> CHR ''+'') s)
      in case split_on (CHR ''.'') core of
           [a, b, c] \<Rightarrow>
             if numeric_id a \<and> numeric_id b \<and> numeric_id c
                \<and> opt_all prerelease_id (fst suffix) \<and> opt_all build_id (snd suffix)
             then Some \<lparr> major = nat_of_digits a, minor = nat_of_digits b, patch = nat_of_digits c,
                         prerelease = fst suffix, build = snd suffix \<rparr>
             else None
         | _ \<Rightarrow> None)"

definition is_valid :: "string \<Rightarrow> bool" where
  "is_valid s = (parse_version s \<noteq> None)"

text \<open>
  The precedence of versions. The key of an identifier puts the numeric ones first, by
  their value, and the others after them, by their text; a version with no pre-release
  comes after those that have one; the build metadata plays no part.
\<close>

definition id_key :: "string \<Rightarrow> bool \<times> nat \<times> string" where
  "id_key s = (if list_all is_digit s then (False, nat_of_digits s, []) else (True, 0, s))"

definition version_key :: "Version \<Rightarrow> nat \<times> nat \<times> nat \<times> bool \<times> (bool \<times> nat \<times> string) list" where
  "version_key v =
     (major v, minor v, patch v,
      (case prerelease v of
         None \<Rightarrow> (True, [])
       | Some p \<Rightarrow> (False, map id_key (split_on (CHR ''.'') p))))"

definition version_less :: "Version \<Rightarrow> Version \<Rightarrow> bool" where
  "version_less a b = (version_key a < version_key b)"


section \<open>The resolver of the commit range\<close>

text \<open>\<^verbatim>\<open>print_color\<close> writes the text between the colour code and the reset code.\<close>

definition WARNING :: string where
  "WARNING = CHR 0x1B # ''[93m''"

definition ENDC :: string where
  "ENDC = CHR 0x1B # ''[0m''"

definition print_color :: "string \<Rightarrow> string \<Rightarrow> string" where
  "print_color color text = color @ text @ ENDC"

definition quoted :: "string \<Rightarrow> string" where
  "quoted s = CHR 0x27 # s @ [CHR 0x27]"

text \<open>\<^verbatim>\<open>_clean_tag\<close>: \<^verbatim>\<open>re.sub(r"^[vV]", "", possible_tag)\<close>.\<close>

definition clean_tag :: "string \<Rightarrow> error + string" where
  "clean_tag possible_tag = re_sub ''^[vV]'' [] possible_tag"

text \<open>\<^verbatim>\<open>d[k] = v\<close> on a dictionary in insertion order: a new key goes to the end.\<close>

fun dict_set :: "('k \<times> 'v) list \<Rightarrow> 'k \<Rightarrow> 'v \<Rightarrow> ('k \<times> 'v) list" where
  "dict_set [] k v = [(k, v)]"
| "dict_set (p # ps) k v = (if fst p = k then (k, v) # ps else p # dict_set ps k v)"

text \<open>
  The dictionary \<^verbatim>\<open>tag_versions\<close>: the names of the tags that are valid versions once
  cleaned, each with its version, in the order of \<^verbatim>\<open>repo_tags\<close>.
\<close>

fun tag_versions :: "string list \<Rightarrow> (string \<times> Version) list \<Rightarrow> error + (string \<times> Version) list" where
  "tag_versions [] d = Inr d"
| "tag_versions (t # ts) d =
     (case clean_tag t of
        Inl e \<Rightarrow> Inl e
      | Inr ct \<Rightarrow>
          (case parse_version ct of
             None \<Rightarrow> tag_versions ts d
           | Some v \<Rightarrow> tag_versions ts (dict_set d t v)))"

text \<open>
  \<^verbatim>\<open>max(versions, key=versions.get)\<close> keeps the first key and replaces it by a later one
  whose version is greater.
\<close>

fun latest_semver :: "(string \<times> Version) list \<Rightarrow> string option" where
  "latest_semver [] = None"
| "latest_semver (p # ps) =
     Some (fst (fold (\<lambda>q best. if version_less (snd best) (snd q) then q else best) ps p))"

definition closest_previous_semver :: "Version \<Rightarrow> (string \<times> Version) list \<Rightarrow> string option" where
  "closest_previous_semver target versions =
     latest_semver (filter (\<lambda>p. version_less (snd p) target) versions)"

text \<open>
  The two branches of \<^verbatim>\<open>process_commits_str\<close> on a tag found or not: the range with
  the tag in the place of \<^verbatim>\<open>~\<close>, or with \<^verbatim>\<open>~..\<close> removed, and the warning written to
  the error stream.
\<close>

definition use_tag :: "string \<Rightarrow> string \<Rightarrow> string \<Rightarrow> error + string \<times> string list" where
  "use_tag tag commits_str msg =
     (case re_sub ''^~'' tag commits_str of
        Inl e \<Rightarrow> Inl e
      | Inr cs \<Rightarrow> Inr (cs, [print_color WARNING (msg @ quoted cs)]))"

text \<open>The pattern text \<^verbatim>\<open>^~\.\.\<close>.\<close>

definition tilde_dots :: string where
  "tilde_dots = ''^~'' @ [bslash, CHR ''.'', bslash, CHR ''.'']"

definition from_beginning :: "string \<Rightarrow> string \<Rightarrow> error + string \<times> string list" where
  "from_beginning commits_str msg =
     (case re_sub tilde_dots [] commits_str of
        Inl e \<Rightarrow> Inl e
      | Inr cs \<Rightarrow> Inr (cs, [print_color WARNING (msg @ quoted cs)]))"

text \<open>
  \<^verbatim>\<open>process_commits_str\<close>: the range to read and what was written to the error stream.
  \<^verbatim>\<open>if closest_prev_tag:\<close> is false for \<^verbatim>\<open>None\<close> and for an empty name.
\<close>

definition process_commits_str :: "string \<Rightarrow> string \<Rightarrow> string list \<Rightarrow> error + string \<times> string list" where
  "process_commits_str commits_str release_title repo_tags =
     (if take 3 commits_str = ''~..'' then
        (case clean_tag release_title of
           Inl e \<Rightarrow> Inl e
         | Inr title_tag_raw \<Rightarrow>
        (case tag_versions repo_tags [] of
           Inl e \<Rightarrow> Inl e
         | Inr tvs \<Rightarrow>
             (case parse_version title_tag_raw of
                Some title_tag \<Rightarrow>
                  (let closest_prev_tag = closest_previous_semver title_tag tvs
                   in if truthy closest_prev_tag
                      then use_tag (case closest_prev_tag of None \<Rightarrow> [] | Some t \<Rightarrow> t) commits_str
                             ''Using commit range ''
                      else from_beginning commits_str
                             ''No valid semver tags found, starting from beginning to commit '')
              | None \<Rightarrow>
                  (let latest_tag = latest_semver tvs
                   in if truthy latest_tag
                      then use_tag (case latest_tag of None \<Rightarrow> [] | Some t \<Rightarrow> t) commits_str
                             ''Release title is not a valid semver, using latest semver tag ''
                      else from_beginning commits_str
                             ''No valid semver release title or tags found, starting from beginning to commit ''))))
      else Inr (commits_str, []))"

text \<open>
  What \<^verbatim>\<open>_clean_tag\<close> is to compute, said directly: the name without one leading
  \<^verbatim>\<open>v\<close> or \<^verbatim>\<open>V\<close>.
\<close>

fun strip_v :: "string \<Rightarrow> string" where
  "strip_v [] = []"
| "strip_v (c # cs) = (if c = CHR ''v'' \<or> c = CHR ''V'' then cs else c # cs)"

text \<open>A tag name paired with the version its cleaned name parses to.\<close>

definition parsed_pair :: "string \<times> Version \<Rightarrow> bool" where
  "parsed_pair p = (parse_version (strip_v (fst p)) = Some (snd p))"

text \<open>The characters a semantic version is made of.\<close>

definition semver_char :: "char \<Rightarrow> bool" where
  "semver_char c = (id_char c \<or> c = CHR ''.'' \<or> c = CHR ''+'')"

section \<open>The objects behind an aggregator\<close>

text \<open>
  Python evaluates the default arguments of \<^verbatim>\<open>MarkdownContent.__init__\<close> once, when the
  class is defined: \<^verbatim>\<open>dict()\<close>, \<^verbatim>\<open>list()\<close> and \<^verbatim>\<open>list()\<close> each create one object, and every
  call that leaves an argument out binds the field to that object. To see what two
  aggregators share, objects live in a store and fields hold addresses. An address is an
  index into the store, and a new object goes to its end.
\<close>

type_synonym addr = nat

datatype obj =
    ODict "(string \<times> addr) list"
  | OList "string list"
  | OInst addr addr addr

type_synonym store = "obj list"

definition lookup :: "store \<Rightarrow> addr \<Rightarrow> obj option" where
  "lookup h a = (if a < length h then Some (h ! a) else None)"

text \<open>The store once the class is defined: the three default objects, in the order of the parameters.\<close>

definition class_store :: store where
  "class_store = [ODict [], OList [], OList []]"

definition default_values :: addr where
  "default_values = 0"

definition default_others :: addr where
  "default_others = 1"

definition default_breaking_changes :: addr where
  "default_breaking_changes = 2"

text \<open>
  \<^verbatim>\<open>MarkdownContent(values, others, breaking_changes)\<close>, with \<open>None\<close> for an argument left
  out: a new instance whose fields are the arguments or the default objects.
\<close>

definition MarkdownContent_init :: "store \<Rightarrow> addr option \<Rightarrow> addr option \<Rightarrow> addr option \<Rightarrow> store \<times> addr" where
  "MarkdownContent_init h vs os bs =
     (h @ [OInst (case vs of None \<Rightarrow> default_values | Some a \<Rightarrow> a)
                 (case os of None \<Rightarrow> default_others | Some a \<Rightarrow> a)
                 (case bs of None \<Rightarrow> default_breaking_changes | Some a \<Rightarrow> a)],
      length h)"

text \<open>The fields of an instance.\<close>

definition values_of :: "store \<Rightarrow> addr \<Rightarrow> addr option" where
  "values_of h m = (case lookup h m of Some (OInst v o' b) \<Rightarrow> Some v | _ \<Rightarrow> None)"

definition others_of :: "store \<Rightarrow> addr \<Rightarrow> addr option" where
  "others_of h m = (case lookup h m of Some (OInst v o' b) \<Rightarrow> Some o' | _ \<Rightarrow> None)"

definition breaking_changes_of :: "store \<Rightarrow> addr \<Rightarrow> addr option" where
  "breaking_changes_of h m = (case lookup h m of Some (OInst v o' b) \<Rightarrow> Some b | _ \<Rightarrow> None)"

text \<open>\<^verbatim>\<open>l.append(x)\<close> on the list at an address, and the contents of the list at an address.\<close>

definition list_append :: "store \<Rightarrow> addr \<Rightarrow> string \<Rightarrow> store" where
  "list_append h l x = (case lookup h l of Some (OList xs) \<Rightarrow> h[l := OList (xs @ [x])] | _ \<Rightarrow> h)"

definition read_list :: "store \<Rightarrow> addr \<Rightarrow> string list option" where
  "read_list h l = (case lookup h l of Some (OList xs) \<Rightarrow> Some xs | _ \<Rightarrow> None)"

text \<open>\<^verbatim>\<open>m.others.append(x)\<close> and \<^verbatim>\<open>m.breaking_changes.append(x)\<close>.\<close>

definition others_append :: "store \<Rightarrow> addr \<Rightarrow> string \<Rightarrow> store" where
  "others_append h m x = (case others_of h m of None \<Rightarrow> h | Some l \<Rightarrow> list_append h l x)"

definition breaking_changes_append :: "store \<Rightarrow> addr \<Rightarrow> string \<Rightarrow> store" where
  "breaking_changes_append h m x =
     (case breaking_changes_of h m of None \<Rightarrow> h | Some l \<Rightarrow> list_append h l x)"

text \<open>
  \<^verbatim>\<open>m.get_values(heading)\<close> on the store: the address of the bucket, created empty in the
  dictionary of \<open>m\<close> when the heading has none.
\<close>

definition get_values_ref :: "store \<Rightarrow> addr \<Rightarrow> string \<Rightarrow> (store \<times> addr) option" where
  "get_values_ref h m heading =
     (case values_of h m of
        None \<Rightarrow> None
      | Some d \<Rightarrow>
          (case lookup h d of
             Some (ODict kvs) \<Rightarrow>
               (case map_of kvs heading of
                  Some l \<Rightarrow> Some (h, l)
                | None \<Rightarrow> Some ((h @ [OList []])[d := ODict (kvs @ [(heading, length h)])], length h))
           | _ \<Rightarrow> None))"

text \<open>\<^verbatim>\<open>m.get_values(heading).append(x)\<close>.\<close>

definition values_append :: "store \<Rightarrow> addr \<Rightarrow> string \<Rightarrow> string \<Rightarrow> store" where
  "values_append h m heading x =
     (case get_values_ref h m heading of None \<Rightarrow> h | Some (h', l) \<Rightarrow> list_append h' l x)"

text \<open>What an aggregator holds, read through its fields.\<close>

definition read_others :: "store \<Rightarrow> addr \<Rightarrow> string list option" where
  "read_others h m = (case others_of h m of None \<Rightarrow> None | Some l \<Rightarrow> read_list h l)"

definition read_breaking_changes :: "store \<Rightarrow> addr \<Rightarrow> string list option" where
  "read_breaking_changes h m =
     (case breaking_changes_of h m of None \<Rightarrow> None | Some l \<Rightarrow> read_list h l)"

definition read_bucket :: "store \<Rightarrow> addr \<Rightarrow> string \<Rightarrow> string list option" where
  "read_bucket h m heading =
     (case values_of h m of
        None \<Rightarrow> None
      | Some d \<Rightarrow>
          (case lookup h d of
             Some (ODict kvs) \<Rightarrow>
               (case map_of kvs heading of None \<Rightarrow> None | Some l \<Rightarrow> read_list h l)
           | _ \<Rightarrow> None))"

text \<open>
  A store in which the default objects are what the class definition made them: a
  dictionary whose buckets are lists, and two lists.
\<close>

definition defaults_intact :: "store \<Rightarrow> bool" where
  "defaults_intact h =
     ((case lookup h default_values of
         Some (ODict kvs) \<Rightarrow> list_all (\<lambda>kv. 2 < snd kv \<and> read_list h (snd kv) \<noteq> None) kvs
       | _ \<Rightarrow> False)
      \<and> read_list h default_others \<noteq> None
      \<and> read_list h default_breaking_changes \<noteq> None)"

text \<open>Two aggregators built one after the other with default arguments, and the store after them.\<close>

definition two_defaults :: "store \<Rightarrow> store \<times> addr \<times> addr" where
  "two_defaults h =
     (let (h1, a) = MarkdownContent_init h None None None;
          (h2, b) = MarkdownContent_init h1 None None None
      in (h2, a, b))"

section \<open>Reading the rendered document\<close>

text \<open>
  The level-2 sections of a document, in the order in which they appear: the lines that
  begin with \<^verbatim>\<open>## \<close>, without that mark.
\<close>

definition level2_headings :: "string \<Rightarrow> string list" where
  "level2_headings doc = map (drop 3) (filter (\<lambda>l. take 3 l = ''## '') (split_nl doc))"

text \<open>A title, a label or an entry that stays on one line.\<close>

definition clean_line :: "string \<Rightarrow> bool" where
  "clean_line l = (newline \<notin> set l)"

text \<open>
  The aggregator states a run can build: \<^verbatim>\<open>main\<close> starts from the empty aggregator and
  changes it in three places only, each an append (lines 393, 395 and 415).
\<close>

inductive built :: "MarkdownContent \<Rightarrow> bool" where
  built_empty: "built empty_mdc"
| built_value: "built mdc \<Longrightarrow> built (append_value mdc heading t)"
| built_other: "built mdc \<Longrightarrow> built (mdc\<lparr>others := others mdc @ [t]\<rparr>)"
| built_breaking: "built mdc \<Longrightarrow> built (mdc\<lparr>breaking_changes := breaking_changes mdc @ [t]\<rparr>)"

text \<open>
  The rendering in the words of the specification: the titles collected for a
  heading-key, and the heading sections, one for each heading-key of \<^verbatim>\<open>headings\<close>, in
  its order, that has any collected title, with the display text and the titles.
\<close>

definition collected :: "MarkdownContent \<Rightarrow> string \<Rightarrow> string list" where
  "collected mdc k = (case map_of (values_map mdc) k of None \<Rightarrow> [] | Some points \<Rightarrow> points)"

definition heading_sections :: "MarkdownContent \<Rightarrow> (string \<times> string) list \<Rightarrow> (string \<times> string list) list" where
  "heading_sections mdc hds =
     map (\<lambda>kh. (snd kh, collected mdc (fst kh)))
         (filter (\<lambda>kh. collected mdc (fst kh) \<noteq> []) hds)"

text \<open>No bucket of the aggregator is empty.\<close>

definition buckets_nonempty :: "MarkdownContent \<Rightarrow> bool" where
  "buckets_nonempty mdc = list_all (\<lambda>kv. snd kv \<noteq> []) (values_map mdc)"

section \<open>Inputs of the examples\<close>

text \<open>The pattern text \<^verbatim>\<open>^(\w+):\<close> of the end-to-end example.\<close>

definition type_colon :: string where
  "type_colon = ''^('' @ bslash # ''w+):''"

text \<open>The pattern text \<^verbatim>\<open>(\w+)(!):\<close>: a type token and an inline breaking-change marker.\<close>

definition type_bang :: string where
  "type_bang = ''('' @ bslash # ''w+)(!):''"

text \<open>The pattern text \<^verbatim>\<open>\[(\w+)\]\<close>: a ticket tag in brackets, with a group.\<close>

definition bracket_tag :: string where
  "bracket_tag = bslash # ''[('' @ bslash # ''w+)'' @ bslash # '']''"

text \<open>The pattern text \<^verbatim>\<open>BREAKING CHANGE(\(\w+\))?:\<close>: a marker with an optional scope.\<close>

definition breaking_scope :: string where
  "breaking_scope = ''BREAKING CHANGE('' @ bslash # ''('' @ bslash # ''w+'' @ bslash # ''))?:''"

text \<open>
  The configuration of the end-to-end example: \<^verbatim>\<open>type_captures: ["^(\\w+):"]\<close>,
  \<^verbatim>\<open>supported_types: {feat: "Features"}\<close>, \<^verbatim>\<open>headings: {feat: "Features"}\<close>, the
  other fields at their defaults.
\<close>

definition example_conf :: Conf where
  "example_conf =
     default_conf\<lparr>type_captures := [type_colon],
                  supported_types := [(''feat'', ''Features'')],
                  headings := [(''feat'', ''Features'')]\<rparr>"

text \<open>The same with \<^verbatim>\<open>supported_types: {feat: feat}\<close>: the type mapped to the key of the heading.\<close>

definition example_conf_keyed :: Conf where
  "example_conf_keyed = example_conf\<lparr>supported_types := [(''feat'', ''feat'')]\<rparr>"





text \<open>
  An aggregator whose buckets were created in the order \<^verbatim>\<open>fix\<close>, \<^verbatim>\<open>feat\<close>, as when
  the first commit traversed is a fix.
\<close>

definition two_buckets :: MarkdownContent where
  "two_buckets = \<lparr> values_map = [(''fix'', [''Close socket'']), (''feat'', [''Add login''])],
                   others = [''Bump deps''], breaking_changes = [] \<rparr>"

section \<open>Properties of the classifier\<close>

text \<open>
  C2, at the failing input. With \<^verbatim>\<open>capitalize_title_first_char\<close> set, the title
  \<^verbatim>\<open>add OAuth login\<close> becomes \<^verbatim>\<open>Add oauth login\<close>: \<^verbatim>\<open>str.capitalize\<close> puts every
  character after the first in lower case, so the rest of the title is not left as it was.
  With the flag off the title is returned as it is.
\<close>

theorem enhance_title_lowers_rest:
  "enhance_title ''add OAuth login'' True = ''Add oauth login'' \<and>
   enhance_title ''add OAuth login'' False = ''add OAuth login''"
  by code_simp

text \<open>
  C3, at the failing input. The configuration has
  \<^verbatim>\<open>type_captures_allow_breaking_change_group\<close> false and the type pattern
  \<^verbatim>\<open>(\w+)(!):\<close>; the classification \<^verbatim>\<open>main\<close> computes for the subject
  \<^verbatim>\<open>feat!: drop api\<close> has the breaking-change flag set all the same, because
  \<^verbatim>\<open>main\<close> passes the trim pattern of the breaking-change lines where the boolean
  belongs. Called with the boolean of the configuration, \<^verbatim>\<open>process_type_capture\<close>
  leaves the flag off on the same subject.
\<close>

theorem classify_ignores_allow_flag:
  "classify (default_conf\<lparr>type_captures := [type_bang],
                          type_captures_allow_breaking_change_group := False\<rparr>)
            ''feat!: drop api''
     = Inr \<lparr> title = ''Drop api'', type_capture = Some ''feat'', type_match = OTHERS,
             is_breaking_change = True \<rparr> \<and>
   process_type_capture ''feat!: drop api'' [type_bang] ws_plus False ws_plus ws_plus [] True
     = Inr \<lparr> title = ''Drop api'', type_capture = Some ''feat'', type_match = OTHERS,
             is_breaking_change = False \<rparr>"
  by code_simp

text \<open>
  C4, at the failing inputs. For a prefix pattern with a capture group, element 1 of
  \<^verbatim>\<open>re.split\<close> is the text of the group, not the text after the prefix: the pre-capture
  stage turns \<^verbatim>\<open>[ABC] feat: x\<close> into \<^verbatim>\<open>ABC\<close> (the remainder is \<^verbatim>\<open>feat: x\<close>), and
  the breaking-change detector turns the line \<^verbatim>\<open>BREAKING CHANGE(api): gone\<close> into
  \<^verbatim>\<open>(api)\<close> (the remainder is \<^verbatim>\<open>gone\<close>). The type-capture stage, which takes the
  last element, keeps the remainder of \<^verbatim>\<open>[ABC] feat: x\<close> for the same pattern.
\<close>

theorem split_index_one_is_group:
  "process_pre_capture ''[ABC] feat: x'' [bracket_tag] ws_plus = Inr ''ABC'' \<and>
   process_breaking_change [''feat: x'', ''BREAKING CHANGE(api): gone''] [breaking_scope] ws_plus True
     = Inr (Some ''(api)'') \<and>
   process_type_capture ''[ABC] feat: x'' [bracket_tag] ws_plus True ws_plus ws_plus [] True
     = Inr \<lparr> title = ''Feat: x'', type_capture = Some ''ABC'', type_match = OTHERS,
             is_breaking_change = False \<rparr>"
  by code_simp

text \<open>
  C9. With no pre-capture pattern the pre-capture stage returns the subject as it is,
  whatever the trim pattern; so with no pre-capture pattern (and no pre-processing pair,
  which would rewrite the subject first) the classification of a subject is the output of
  the type-capture stage on that very subject.
\<close>

theorem pre_capture_unconfigured_identity:
  "process_pre_capture subject [] trim = Inr subject \<and>
   classify (c\<lparr>pre_captures := [], preprocessing := None\<rparr>) subject =
     process_type_capture subject (type_captures c) (type_captures_after_trim c)
       (breaking_change_line_captures_after_trim c \<noteq> [])
       (title_left_trim c) (title_right_trim c) (supported_types c)
       (capitalize_title_first_char c)"
  by (simp add: classify_def apply_processing_def)

theorem pre_capture_unconfigured_identity_witness:
  "process_pre_capture ''feat: add login'' [] ws_plus = Inr ''feat: add login'' \<and>
   classify (default_conf\<lparr>type_captures := [type_colon]\<rparr>) ''feat: add login''
     = Inr \<lparr> title = ''Add login'', type_capture = Some ''feat'', type_match = OTHERS,
             is_breaking_change = False \<rparr>"
proof -
  have c: "default_conf\<lparr>type_captures := [type_colon]\<rparr>
           = (default_conf\<lparr>type_captures := [type_colon]\<rparr>)\<lparr>pre_captures := [], preprocessing := None\<rparr>"
    by (simp add: default_conf_def)
  have t: "process_type_capture ''feat: add login'' [type_colon] ws_plus (ws_plus \<noteq> [])
             ws_plus ws_plus [] True
           = Inr \<lparr> title = ''Add login'', type_capture = Some ''feat'', type_match = OTHERS,
                   is_breaking_change = False \<rparr>"
    by code_simp
  from pre_capture_unconfigured_identity
         [of "''feat: add login''" ws_plus "default_conf\<lparr>type_captures := [type_colon]\<rparr>"]
  show ?thesis
    unfolding c [symmetric] using t by (simp add: default_conf_def)
qed

section \<open>Properties of the loop over the commits\<close>

text \<open>
  C1, the counterexample. With the configuration of the claim the commit
  \<^verbatim>\<open>feat: add login\<close> is collected in the bucket whose key is \<^verbatim>\<open>Features\<close>, the value
  of \<^verbatim>\<open>supported_types\<close>; the renderer looks the keys of \<^verbatim>\<open>headings\<close> up, finds no
  bucket under \<^verbatim>\<open>feat\<close>, and the document has the title line and nothing else.
\<close>

theorem example_feat_not_rendered:
  "process_commits example_conf [''feat: add login''] empty_mdc
     = Inr \<lparr> values_map = [(''Features'', [''Add login''])], others = [],
             breaking_changes = [] \<rparr> \<and>
   changelog example_conf ''vX.Y.Z'' [''feat: add login'']
     = Inr (''# vX.Y.Z'' @ [newline, newline])"
  by code_simp

text \<open>
  C1, amended. When \<^verbatim>\<open>supported_types\<close> maps \<^verbatim>\<open>feat\<close> to the key \<^verbatim>\<open>feat\<close> under
  which \<^verbatim>\<open>headings\<close> holds \<^verbatim>\<open>Features\<close>, the commit \<^verbatim>\<open>feat: add login\<close> yields the
  bullet \<^verbatim>\<open>Add login\<close> under the level-2 section \<^verbatim>\<open>Features\<close>; the commit
  \<^verbatim>\<open>chore: bump deps\<close> yields the bullet \<^verbatim>\<open>Bump deps\<close> under \<^verbatim>\<open>Others\<close>, with that
  configuration and with the one of the claim.
\<close>

theorem example_end_to_end:
  "changelog example_conf_keyed ''vX.Y.Z'' [''feat: add login'']
     = Inr (''# vX.Y.Z'' @ [newline, newline] @
            ''## Features'' @ [newline, newline] @ ''- Add login'' @ [newline, newline]) \<and>
   changelog example_conf ''vX.Y.Z'' [''chore: bump deps'']
     = Inr (''# vX.Y.Z'' @ [newline, newline] @
            ''## Others'' @ [newline, newline] @ ''- Bump deps'' @ [newline, newline]) \<and>
   changelog example_conf_keyed ''vX.Y.Z'' [''chore: bump deps'']
     = Inr (''# vX.Y.Z'' @ [newline, newline] @
            ''## Others'' @ [newline, newline] @ ''- Bump deps'' @ [newline, newline])"
  by code_simp






section \<open>Properties of the renderer\<close>

text \<open>
  The lines of a document that was put together line by line.
\<close>

lemma split_on_ne: "split_on sep s \<noteq> []"
  by (induction s) (auto split: list.splits)

lemma split_on_line:
  "sep \<notin> set l \<Longrightarrow> split_on sep (l @ sep # rest) = l # split_on sep rest"
  by (induction l) (auto split: list.splits)

lemma split_on_single: "sep \<notin> set l \<Longrightarrow> split_on sep l = [l]"
  by (induction l) (auto split: list.splits)

lemma level2_line:
  "newline \<notin> set l \<Longrightarrow>
   level2_headings (l @ newline # rest) = (if take 3 l = ''## '' then [drop 3 l] else []) @ level2_headings rest"
  by (simp add: level2_headings_def split_nl_def split_on_line)

lemma level2_nil: "level2_headings [] = []"
  by (simp add: level2_headings_def split_nl_def)

lemma level2_blank: "level2_headings (newline # rest) = level2_headings rest"
  using level2_line [of "[]" rest] by simp

lemma newline_neq: "newline \<noteq> CHR ''-''" "newline \<noteq> CHR '' ''" "newline \<noteq> CHR ''#''"
  by (simp_all add: newline_def)

lemma level2_points:
  "list_all clean_line points \<Longrightarrow>
   level2_headings (append_points points @ newline # rest) = level2_headings rest"
proof (induction points rule: join_nl.induct)
  case 1
  then show ?case by (simp add: append_points_def level2_blank)
next
  case (2 x)
  then show ?case using level2_line [of "''- '' @ x" rest] by (simp add: append_points_def newline_neq clean_line_def)
next
  case (3 x y ys)
  then show ?case using level2_line [of "''- '' @ x" "append_points (y # ys) @ newline # rest"]
    by (simp add: append_points_def newline_neq clean_line_def)
qed

lemma level2_section:
  assumes "clean_line h" "list_all clean_line points"
  shows "level2_headings (append_section h points @ rest) = h # level2_headings rest"
proof -
  have "append_section h points @ rest = (''## '' @ h) @ newline # (newline # (append_points points @ newline # rest))"
    by (simp add: append_section_def)
  then show ?thesis
    using assms level2_line [of "''## '' @ h" "newline # (append_points points @ newline # rest)"]
    by (simp add: level2_blank level2_points newline_neq clean_line_def)
qed

lemma fold_heading_step:
  "fold (heading_step mdc) hds content =
   content @ concat (map (\<lambda>kh. case map_of (values_map mdc) (fst kh) of
                                  None \<Rightarrow> [] | Some points \<Rightarrow> append_section (snd kh) points @ [newline]) hds)"
  by (induction hds arbitrary: content) (auto simp: heading_step_def split: option.splits)

lemma level2_sections:
  assumes "list_all (\<lambda>kh. clean_line (snd kh)) hds"
    and "list_all (\<lambda>kv. list_all clean_line (snd kv)) (values_map mdc)"
  shows "level2_headings (concat (map (\<lambda>kh. case map_of (values_map mdc) (fst kh) of
                                  None \<Rightarrow> [] | Some points \<Rightarrow> append_section (snd kh) points @ [newline]) hds) @ rest)
         = map snd (filter (\<lambda>kh. map_of (values_map mdc) (fst kh) \<noteq> None) hds) @ level2_headings rest"
  using assms(1)
proof (induction hds)
  case Nil
  then show ?case by simp
next
  case (Cons kh hds)
  show ?case
  proof (cases "map_of (values_map mdc) (fst kh)")
    case None
    then show ?thesis using Cons by simp
  next
    case (Some points)
    then have "(fst kh, points) \<in> set (values_map mdc)" by (rule map_of_SomeD)
    with assms(2) have pts: "list_all clean_line points"
      by (auto simp: list_all_iff)
    from Cons.prems have h: "clean_line (snd kh)" by simp
    show ?thesis using Some Cons level2_section [OF h pts] level2_blank by simp
  qed
qed

lemma level2_title: "clean_line t \<Longrightarrow> level2_headings (''# '' @ t @ newline # newline # rest) = level2_headings rest"
  using level2_line [of "''# '' @ t" "newline # rest"]
  by (simp add: clean_line_def newline_neq level2_blank)

text \<open>
  The level-2 lines of the document of any aggregator, when no title, label or entry
  holds a newline: a section for every heading-key that has a bucket.
\<close>

lemma level2_rendered:
  assumes "clean_line t" and "clean_line others_hd" and "clean_line breaking_hd"
    and "list_all (\<lambda>kh. clean_line (snd kh)) hds"
    and "list_all (\<lambda>kv. list_all clean_line (snd kv)) (values_map mdc)"
    and "list_all clean_line (others mdc)"
    and "list_all clean_line (breaking_changes mdc)"
  shows "level2_headings (process_markdown mdc t hds others_hd breaking_hd) =
           map snd (filter (\<lambda>kh. fst kh \<in> set (map fst (values_map mdc))) hds)
           @ (if others mdc = [] then [] else [others_hd])
           @ (if breaking_changes mdc = [] then [] else [breaking_hd])"
proof -
  let ?secs = "concat (map (\<lambda>kh. case map_of (values_map mdc) (fst kh) of
                 None \<Rightarrow> [] | Some points \<Rightarrow> append_section (snd kh) points @ [newline]) hds)"
  let ?o = "if others mdc = [] then [] else append_section others_hd (others mdc) @ [newline]"
  let ?b = "if breaking_changes mdc = [] then [] else append_section breaking_hd (breaking_changes mdc)"
  have doc: "process_markdown mdc t hds others_hd breaking_hd
             = ''# '' @ t @ newline # newline # (?secs @ (?o @ ?b))"
    by (simp add: process_markdown_def Let_def fold_heading_step)
  note o = assms(6) and b = assms(7) and ho = assms(2) and hb = assms(3)
  have lb: "level2_headings ?b = (if breaking_changes mdc = [] then [] else [breaking_hd])"
    using level2_section [OF hb b, of "[]"] by (simp add: level2_nil)
  have lo: "level2_headings (?o @ ?b)
            = (if others mdc = [] then [] else [others_hd]) @ level2_headings ?b"
    using level2_section [OF ho o, of "newline # ?b"] by (simp add: level2_blank)
  have keys: "(\<lambda>kh. map_of (values_map mdc) (fst kh) \<noteq> None)
              = (\<lambda>kh. fst kh \<in> set (map fst (values_map mdc)))"
    by (auto simp: map_of_eq_None_iff)
  show ?thesis
    unfolding doc
    by (simp only: level2_title [OF assms(1)] level2_sections [OF assms(4,5)] lo lb keys)
qed

text \<open>
  \<^verbatim>\<open>main\<close> creates a bucket only to append to it at once, so no state that a run builds
  holds an empty bucket, and every state the loop over the commits reaches is such a
  state.
\<close>

lemma append_value_nonempty: "buckets_nonempty mdc \<Longrightarrow> buckets_nonempty (append_value mdc h t)"
  by (auto simp: buckets_nonempty_def append_value_def get_values_def Let_def list_all_iff)

lemma built_nonempty: "built mdc \<Longrightarrow> buckets_nonempty mdc"
proof (induction rule: built.induct)
  case built_empty
  show ?case by (simp add: buckets_nonempty_def empty_mdc_def)
next
  case (built_value mdc heading t)
  then show ?case by (simp add: append_value_nonempty)
next
  case (built_other mdc t)
  then show ?case by (simp add: buckets_nonempty_def)
next
  case (built_breaking mdc t)
  then show ?case by (simp add: buckets_nonempty_def)
qed

lemma collect_built: "built mdc \<Longrightarrow> collect c tco t mdc = Inr mdc1 \<Longrightarrow> built mdc1"
  by (auto simp: collect_def split: TypeMatch.splits option.splits
           intro: built_value built_other)

lemma record_breaking_change_built: "built mdc \<Longrightarrow> built (record_breaking_change tco t explicit mdc)"
  by (simp add: record_breaking_change_def Let_def built_breaking)

lemma process_commit_built:
  "built mdc \<Longrightarrow> process_commit c m mdc = Inr mdc' \<Longrightarrow> built mdc'"
  by (auto simp: process_commit_def split: sum.splits
           intro: record_breaking_change_built collect_built)

lemma process_commits_built:
  "built mdc \<Longrightarrow> process_commits c ms mdc = Inr mdc' \<Longrightarrow> built mdc'"
  by (induction ms arbitrary: mdc) (auto split: sum.splits dest: process_commit_built)

lemma run_built: "process_commits c ms empty_mdc = Inr mdc \<Longrightarrow> built mdc"
  using process_commits_built [OF built_empty] .

text \<open>Where no bucket is empty, a heading-key has a bucket when it has collected titles.\<close>

lemma bucket_nonempty:
  "buckets_nonempty mdc \<Longrightarrow> map_of (values_map mdc) k = Some points \<Longrightarrow> points \<noteq> []"
  by (auto simp: buckets_nonempty_def list_all_iff dest!: map_of_SomeD)

lemma key_collected:
  "buckets_nonempty mdc \<Longrightarrow>
   (k \<in> set (map fst (values_map mdc))) = (collected mdc k \<noteq> [])"
proof (cases "map_of (values_map mdc) k")
  case None
  then have "k \<notin> set (map fst (values_map mdc))"
    by (simp add: map_of_eq_None_iff)
  moreover from None have "collected mdc k = []"
    by (simp add: collected_def)
  ultimately show ?thesis by simp
next
  case (Some points)
  assume "buckets_nonempty mdc"
  from bucket_nonempty [OF this Some] have "points \<noteq> []" .
  moreover from Some have "k \<in> fst ` set (values_map mdc)" by (auto dest: map_of_SomeD intro: rev_image_eqI)
  moreover from Some have "collected mdc k = points"
    by (simp add: collected_def)
  ultimately show ?thesis by simp
qed

lemma heading_part:
  assumes "buckets_nonempty mdc"
  shows "concat (map (\<lambda>kh. case map_of (values_map mdc) (fst kh) of
                     None \<Rightarrow> [] | Some points \<Rightarrow> append_section (snd kh) points @ [newline]) hds)
         = concat (map (\<lambda>s. append_section (fst s) (snd s) @ [newline]) (heading_sections mdc hds))"
proof (induction hds)
  case Nil
  show ?case by (simp add: heading_sections_def)
next
  case (Cons kh hds)
  show ?case
  proof (cases "map_of (values_map mdc) (fst kh)")
    case None
    with Cons show ?thesis by (simp add: heading_sections_def collected_def)
  next
    case (Some points)
    from bucket_nonempty [OF assms Some] have "points \<noteq> []" .
    with Some Cons show ?thesis by (simp add: heading_sections_def collected_def)
  qed
qed

text \<open>
  C8. For every aggregator state that a run builds and every configuration, the document
  is the title line followed by the heading sections, then the others section, then the
  breaking-changes section. The heading sections are those of the heading-keys that
  have collected titles, in the iteration order of \<^verbatim>\<open>headings\<close>: the order in which the
  buckets were created, which is the order of traversal of the commits, plays no part.
  A heading-key with no collected title, an empty others bucket and an empty
  breaking-changes bucket give no section. When no title, label or entry holds a newline,
  the lines of the document that begin with \<^verbatim>\<open>## \<close> are those sections one for one.
\<close>

theorem rendered_sections:
  assumes "built mdc"
  shows "process_markdown mdc t hds others_hd breaking_hd
           = ''# '' @ t @ [newline, newline]
             @ concat (map (\<lambda>s. append_section (fst s) (snd s) @ [newline])
                           (heading_sections mdc hds))
             @ (if others mdc = [] then []
                else append_section others_hd (others mdc) @ [newline])
             @ (if breaking_changes mdc = [] then []
                else append_section breaking_hd (breaking_changes mdc))
       \<and> (clean_line t \<and> clean_line others_hd \<and> clean_line breaking_hd
          \<and> list_all (\<lambda>kh. clean_line (snd kh)) hds
          \<and> list_all (\<lambda>kv. list_all clean_line (snd kv)) (values_map mdc)
          \<and> list_all clean_line (others mdc)
          \<and> list_all clean_line (breaking_changes mdc)
          \<longrightarrow> level2_headings (process_markdown mdc t hds others_hd breaking_hd)
               = map fst (heading_sections mdc hds)
                 @ (if others mdc = [] then [] else [others_hd])
                 @ (if breaking_changes mdc = [] then [] else [breaking_hd]))"
proof (intro conjI impI)
  from assms have ne: "buckets_nonempty mdc" by (rule built_nonempty)
  show "process_markdown mdc t hds others_hd breaking_hd
           = ''# '' @ t @ [newline, newline]
             @ concat (map (\<lambda>s. append_section (fst s) (snd s) @ [newline])
                           (heading_sections mdc hds))
             @ (if others mdc = [] then []
                else append_section others_hd (others mdc) @ [newline])
             @ (if breaking_changes mdc = [] then []
                else append_section breaking_hd (breaking_changes mdc))"
    by (simp add: process_markdown_def Let_def fold_heading_step heading_part [OF ne])
  assume c: "clean_line t \<and> clean_line others_hd \<and> clean_line breaking_hd
          \<and> list_all (\<lambda>kh. clean_line (snd kh)) hds
          \<and> list_all (\<lambda>kv. list_all clean_line (snd kv)) (values_map mdc)
          \<and> list_all clean_line (others mdc)
          \<and> list_all clean_line (breaking_changes mdc)"
  have "map snd (filter (\<lambda>kh. fst kh \<in> set (map fst (values_map mdc))) hds)
        = map fst (heading_sections mdc hds)"
    unfolding heading_sections_def key_collected [OF ne] by (simp add: comp_def)
  moreover have "level2_headings (process_markdown mdc t hds others_hd breaking_hd) =
           map snd (filter (\<lambda>kh. fst kh \<in> set (map fst (values_map mdc))) hds)
           @ (if others mdc = [] then [] else [others_hd])
           @ (if breaking_changes mdc = [] then [] else [breaking_hd])"
    using c by (intro level2_rendered) simp_all
  ultimately show "level2_headings (process_markdown mdc t hds others_hd breaking_hd)
               = map fst (heading_sections mdc hds)
                 @ (if others mdc = [] then [] else [others_hd])
                 @ (if breaking_changes mdc = [] then [] else [breaking_hd])"
    by simp
qed

theorem rendered_sections_witness:
  "built two_buckets
   \<and> heading_sections two_buckets
        [(''feat'', ''Features''), (''docs'', ''Documentation''), (''fix'', ''Bug Fixes'')]
       = [(''Features'', [''Add login'']), (''Bug Fixes'', [''Close socket''])]
   \<and> process_markdown two_buckets ''vX.Y.Z''
        [(''feat'', ''Features''), (''docs'', ''Documentation''), (''fix'', ''Bug Fixes'')]
        ''Others'' ''BREAKING CHANGES''
       = ''# vX.Y.Z'' @ [newline, newline]
         @ ''## Features'' @ [newline, newline] @ ''- Add login'' @ [newline, newline]
         @ ''## Bug Fixes'' @ [newline, newline] @ ''- Close socket'' @ [newline, newline]
         @ ''## Others'' @ [newline, newline] @ ''- Bump deps'' @ [newline, newline]
   \<and> level2_headings (process_markdown two_buckets ''vX.Y.Z''
        [(''feat'', ''Features''), (''docs'', ''Documentation''), (''fix'', ''Bug Fixes'')]
        ''Others'' ''BREAKING CHANGES'')
       = [''Features'', ''Bug Fixes'', ''Others'']"
proof -
  let ?hds = "[(''feat'', ''Features''), (''docs'', ''Documentation''), (''fix'', ''Bug Fixes'')]"
  have e: "two_buckets
        = append_value
            (append_value (empty_mdc\<lparr>others := others empty_mdc @ [''Bump deps'']\<rparr>)
               ''fix'' ''Close socket'')
            ''feat'' ''Add login''"
    by (simp add: two_buckets_def empty_mdc_def append_value_def get_values_def Let_def)
  have b: "built two_buckets"
    unfolding e by (rule built_value [OF built_value [OF built_other [OF built_empty]]])
  have h: "heading_sections two_buckets ?hds
           = [(''Features'', [''Add login'']), (''Bug Fixes'', [''Close socket''])]"
    by (simp add: heading_sections_def collected_def two_buckets_def)
  have o: "others two_buckets = [''Bump deps'']" "breaking_changes two_buckets = []"
    by (simp_all add: two_buckets_def)
  have cl: "clean_line ''vX.Y.Z'' \<and> clean_line ''Others'' \<and> clean_line ''BREAKING CHANGES''
          \<and> list_all (\<lambda>kh. clean_line (snd kh)) ?hds
          \<and> list_all (\<lambda>kv. list_all clean_line (snd kv)) (values_map two_buckets)
          \<and> list_all clean_line (others two_buckets)
          \<and> list_all clean_line (breaking_changes two_buckets)"
    by (simp add: clean_line_def newline_def two_buckets_def)
  note r = rendered_sections [OF b, of "''vX.Y.Z''" ?hds "''Others''" "''BREAKING CHANGES''"]
  have p: "process_markdown two_buckets ''vX.Y.Z'' ?hds ''Others'' ''BREAKING CHANGES''
           = ''# '' @ ''vX.Y.Z'' @ [newline, newline]
             @ concat (map (\<lambda>s. append_section (fst s) (snd s) @ [newline])
                           (heading_sections two_buckets ?hds))
             @ (if others two_buckets = [] then []
                else append_section ''Others'' (others two_buckets) @ [newline])
             @ (if breaking_changes two_buckets = [] then []
                else append_section ''BREAKING CHANGES'' (breaking_changes two_buckets))"
    using r by (rule conjunct1)
  have l: "level2_headings (process_markdown two_buckets ''vX.Y.Z'' ?hds ''Others'' ''BREAKING CHANGES'')
               = map fst (heading_sections two_buckets ?hds)
                 @ (if others two_buckets = [] then [] else [''Others''])
                 @ (if breaking_changes two_buckets = [] then [] else [''BREAKING CHANGES''])"
    using r [THEN conjunct2] cl by (rule mp)
  from p l show ?thesis
    using b h by (simp add: o append_section_def append_points_def)
qed

text \<open>
  The hypothesis cannot be dropped. An aggregator handed to the renderer with an empty
  bucket, which no run builds, is rendered with a section that has no bullet: the
  renderer tests whether the key is present.
\<close>

lemma empty_bucket_rendered:
  "process_markdown \<lparr> values_map = [(''feat'', [])], others = [], breaking_changes = [] \<rparr>
       ''vX.Y.Z'' [(''feat'', ''Features'')] ''Others'' ''BREAKING CHANGES''
   = ''# vX.Y.Z'' @ [newline, newline] @ ''## Features'' @ [newline, newline, newline, newline]"
  by code_simp

section \<open>Properties of the resolver of the commit range\<close>

text \<open>
  A pattern that begins with \<^verbatim>\<open>^\<close> matches at the start of the text only, so
  \<^verbatim>\<open>re.sub\<close> replaces at most the prefix.
\<close>

lemma rmatch_bol_later: "0 < b \<Longrightarrow> rmatch (Seq Bol r) s i (b, c) = []"
  by simp

lemma match_at_bol_later: "0 < b \<Longrightarrow> match_at (Seq Bol r) s b adv = None"
  by (simp add: match_at_def)

lemma scan_bol_later: "list_all (\<lambda>b. 0 < b) bs \<Longrightarrow> scan (Seq Bol r) s bs nxt adv = []"
  by (induction bs arbitrary: nxt adv) (simp_all add: match_at_bol_later)

lemma upt_from_zero: "[0..<Suc n] = 0 # [1..<Suc n]"
  by (simp add: upt_conv_Cons)

lemma finditer_bol_nonempty:
  assumes "match_at (Seq Bol r) s 0 False = Some (0, e, gs)" and "0 < e"
  shows "finditer (Seq Bol r) s = [(0, e, gs)]"
proof -
  have "list_all (\<lambda>b. 0 < b) [1..<Suc (length s)]" by (auto simp: list_all_iff)
  then show ?thesis
    using assms unfolding finditer_def upt_from_zero
    by (simp add: scan_bol_later)
qed

lemma finditer_bol_none:
  assumes "match_at (Seq Bol r) s 0 False = None"
  shows "finditer (Seq Bol r) s = []"
proof -
  have "list_all (\<lambda>b. 0 < b) [1..<Suc (length s)]" by (auto simp: list_all_iff)
  then show ?thesis
    using assms unfolding finditer_def upt_from_zero
    by (simp add: scan_bol_later)
qed

text \<open>
  The three patterns of the resolver, and a replacement text without backslash, which
  stands for itself.
\<close>

lemma compile_tilde: "compile ''^~'' = Inr (Seq Bol (Lit (CHR ''~'')))"
  by code_simp

lemma compile_tilde_dots:
  "compile tilde_dots
   = Inr (Seq Bol (Seq (Lit (CHR ''~'')) (Seq (Lit (CHR ''.'')) (Lit (CHR ''.'')))))"
  by code_simp

lemma compile_v: "compile ''^[vV]'' = Inr (Seq Bol (CSet False [IChar (CHR ''v''), IChar (CHR ''V'')]))"
  by code_simp

lemma parse_template_plain: "bslash \<notin> set s \<Longrightarrow> parse_template s = Inr (map TLit s)"
  by (induction s rule: parse_template.induct) auto

lemma expand_plain: "concat (map (expand_item gs \<circ> TLit) s) = s"
  by (induction s) auto

lemma template_ok_plain: "list_all (template_ok n) (map TLit s)"
  by (induction s) auto

lemma re_sub_tilde:
  assumes "bslash \<notin> set tag"
  shows "re_sub ''^~'' tag (CHR ''~'' # rest) = Inr (tag @ rest)"
proof -
  have m: "match_at (Seq Bol (Lit (CHR ''~''))) (CHR ''~'' # rest) 0 False = Some (0, 1, [])"
    by (simp add: match_at_def)
  show ?thesis
    using assms finditer_bol_nonempty [OF m]
    by (simp add: re_sub_def compile_tilde parse_template_plain template_ok_plain expand_plain)
qed

lemma re_sub_tilde_dots:
  "re_sub tilde_dots [] (CHR ''~'' # CHR ''.'' # CHR ''.'' # rest) = Inr rest"
proof -
  have m: "match_at (Seq Bol (Seq (Lit (CHR ''~'')) (Seq (Lit (CHR ''.'')) (Lit (CHR ''.'')))))
             (CHR ''~'' # CHR ''.'' # CHR ''.'' # rest) 0 False = Some (0, 3, [])"
    by (simp add: match_at_def)
  show ?thesis
    using finditer_bol_nonempty [OF m]
    by (simp add: re_sub_def compile_tilde_dots)
qed

text \<open>
  \<^verbatim>\<open>_clean_tag\<close> computes \<open>strip_v\<close>, and never fails.
\<close>

lemma clean_tag_strip: "clean_tag t = Inr (strip_v t)"
proof (cases t)
  case Nil
  have "match_at (Seq Bol (CSet False [IChar (CHR ''v''), IChar (CHR ''V'')])) [] 0 False = None"
    by (simp add: match_at_def)
  from finditer_bol_none [OF this] show ?thesis using Nil
    by (simp add: clean_tag_def re_sub_def compile_v)
next
  case (Cons c cs)
  show ?thesis
  proof (cases "c = CHR ''v'' \<or> c = CHR ''V''")
    case True
    then have "match_at (Seq Bol (CSet False [IChar (CHR ''v''), IChar (CHR ''V'')])) (c # cs) 0 False
               = Some (0, 1, [])"
      by (auto simp: match_at_def)
    from finditer_bol_nonempty [OF this] show ?thesis using Cons True
      by (auto simp: clean_tag_def re_sub_def compile_v)
  next
    case False
    then have "match_at (Seq Bol (CSet False [IChar (CHR ''v''), IChar (CHR ''V'')])) (c # cs) 0 False = None"
      by (auto simp: match_at_def)
    from finditer_bol_none [OF this] show ?thesis using Cons False
      by (auto simp: clean_tag_def re_sub_def compile_v)
  qed
qed

text \<open>
  The precedence of versions is a strict order, so the key that \<^verbatim>\<open>max\<close> ends with has
  no key above it.
\<close>

lemma version_less_trans: "version_less a b \<Longrightarrow> version_less b c \<Longrightarrow> version_less a c"
  by (simp add: version_less_def)

lemma version_less_irrefl: "\<not> version_less a a"
  by (simp add: version_less_def)

lemma fold_latest:
  assumes "p \<in> set seen" and "\<forall>q \<in> set seen. \<not> version_less (snd p) (snd q)"
  shows "fold (\<lambda>q best. if version_less (snd best) (snd q) then q else best) ps p \<in> set seen \<union> set ps
         \<and> (\<forall>q \<in> set seen \<union> set ps.
              \<not> version_less (snd (fold (\<lambda>q best. if version_less (snd best) (snd q) then q else best) ps p)) (snd q))"
  using assms
proof (induction ps arbitrary: p seen)
  case Nil
  then show ?case by simp
next
  case (Cons x xs)
  let ?p = "if version_less (snd p) (snd x) then x else p"
  have a: "?p \<in> set (seen @ [x])" using Cons.prems(1) by simp
  have b: "\<forall>q \<in> set (seen @ [x]). \<not> version_less (snd ?p) (snd q)"
    using Cons.prems(2) by (auto dest: version_less_trans simp: version_less_irrefl)
  from Cons.IH [OF a b] show ?case by simp
qed

lemma latest_semver_max:
  assumes "ps \<noteq> []"
  shows "\<exists>t v. latest_semver ps = Some t \<and> (t, v) \<in> set ps
               \<and> (\<forall>q \<in> set ps. \<not> version_less v (snd q))"
proof -
  from assms obtain p rest where ps: "ps = p # rest" by (cases ps) auto
  let ?b = "fold (\<lambda>q best. if version_less (snd best) (snd q) then q else best) rest p"
  have "?b \<in> set [p] \<union> set rest \<and> (\<forall>q \<in> set [p] \<union> set rest. \<not> version_less (snd ?b) (snd q))"
    by (rule fold_latest) (simp_all add: version_less_irrefl)
  then have "(fst ?b, snd ?b) \<in> set ps" and "\<forall>q \<in> set ps. \<not> version_less (snd ?b) (snd q)"
    using ps by auto
  moreover have "latest_semver ps = Some (fst ?b)" using ps by simp
  ultimately show ?thesis by blast
qed

text \<open>
  The dictionary \<^verbatim>\<open>tag_versions\<close> holds the tags whose cleaned name is a valid version,
  each with that version.
\<close>

lemma dict_set_same:
  "\<forall>p \<in> set d. fst p = k \<longrightarrow> snd p = v \<Longrightarrow> set (dict_set d k v) = insert (k, v) (set d)"
  by (induction d) (auto simp: prod_eq_iff)

lemma tag_versions_set:
  assumes "list_all parsed_pair d"
  shows "\<exists>tvs. tag_versions ts d = Inr tvs \<and>
           set tvs = set d \<union> {p. fst p \<in> set ts \<and> parsed_pair p}"
  using assms
proof (induction ts arbitrary: d)
  case Nil
  then show ?case by simp
next
  case (Cons t ts)
  show ?case
  proof (cases "parse_version (strip_v t)")
    case None
    then have "{p. fst p \<in> set (t # ts) \<and> parsed_pair p} = {p. fst p \<in> set ts \<and> parsed_pair p}"
      by (auto simp: parsed_pair_def)
    with None Cons show ?thesis by (simp add: clean_tag_strip)
  next
    case (Some v)
    have same: "\<forall>p \<in> set d. fst p = t \<longrightarrow> snd p = v"
      using Cons.prems Some by (auto simp: list_all_iff parsed_pair_def)
    have d': "set (dict_set d t v) = insert (t, v) (set d)" by (rule dict_set_same [OF same])
    have "list_all parsed_pair (dict_set d t v)"
      using Cons.prems Some d' by (auto simp: list_all_iff parsed_pair_def)
    from Cons.IH [OF this] obtain tvs where
      tvs: "tag_versions ts (dict_set d t v) = Inr tvs"
           "set tvs = set (dict_set d t v) \<union> {p. fst p \<in> set ts \<and> parsed_pair p}" by blast
    have "{p. fst p \<in> set (t # ts) \<and> parsed_pair p} = insert (t, v) {p. fst p \<in> set ts \<and> parsed_pair p}"
      using Some by (auto simp: parsed_pair_def)
    with tvs d' Some show ?thesis by (simp add: clean_tag_strip)
  qed
qed

text \<open>
  A valid version is made of letters, digits, dots, hyphens and a plus sign: the name of
  a valid tag holds no backslash and is not empty.
\<close>

lemma split_on_chars:
  "list_all (list_all P) (split_on sep s) \<Longrightarrow> x \<in> set s \<Longrightarrow> x = sep \<or> P x"
  by (induction s arbitrary: x) (auto split: list.splits if_splits)

lemma opt_all_chars:
  assumes "opt_all ok (Some s)" and "\<And>l. ok l \<Longrightarrow> list_all id_char l"
  shows "list_all semver_char s"
proof -
  have "list_all (list_all id_char) (split_on (CHR ''.'') s)"
    using assms by (auto simp: opt_all_def list_all_iff)
  then have "\<And>x. x \<in> set s \<Longrightarrow> x = CHR ''.'' \<or> id_char x" by (rule split_on_chars)
  then show ?thesis by (auto simp: list_all_iff semver_char_def)
qed

lemma split_suffix_chars:
  assumes "opt_all prerelease_id (fst (split_suffix r))" and "opt_all build_id (snd (split_suffix r))"
    and "r = [] \<or> hd r = CHR ''-'' \<or> hd r = CHR ''+''"
  shows "list_all semver_char r"
proof (cases r)
  case Nil
  then show ?thesis by simp
next
  case (Cons c cs)
  show ?thesis
  proof (cases "c = CHR ''-''")
    case True
    let ?Q = "\<lambda>d. d \<noteq> CHR ''+''"
    have pre: "list_all semver_char (takeWhile ?Q cs)"
      using assms(1) Cons True by (auto intro: opt_all_chars simp: prerelease_id_def)
    have bld: "list_all semver_char (dropWhile ?Q cs)"
    proof (cases "dropWhile ?Q cs")
      case Nil
      show ?thesis unfolding Nil by simp
    next
      case (Cons d b)
      then have "d = CHR ''+''" using hd_dropWhile [of ?Q cs] by auto
      moreover have "list_all semver_char b"
        using assms(2) \<open>r = c # cs\<close> True Cons by (auto intro: opt_all_chars simp: build_id_def)
      ultimately show ?thesis using Cons by (simp add: semver_char_def)
    qed
    have "list_all semver_char (takeWhile ?Q cs @ dropWhile ?Q cs)"
      using pre bld by (simp only: list_all_append)
    then have "list_all semver_char cs" by (simp only: takeWhile_dropWhile_id)
    then show ?thesis using Cons True by (simp add: semver_char_def id_char_def)
  next
    case False
    then have "c = CHR ''+''" using assms(3) Cons by simp
    moreover have "list_all semver_char cs"
      using assms(2) Cons False by (auto intro: opt_all_chars simp: build_id_def)
    ultimately show ?thesis using Cons by (simp add: semver_char_def)
  qed
qed

lemma parse_version_chars:
  assumes "parse_version s = Some v"
  shows "list_all semver_char s"
proof -
  let ?P = "\<lambda>c. c \<noteq> CHR ''-'' \<and> c \<noteq> CHR ''+''"
  from assms obtain a b c where
    core: "split_on (CHR ''.'') (takeWhile ?P s) = [a, b, c]"
    and num: "numeric_id a" "numeric_id b" "numeric_id c"
    and suf: "opt_all prerelease_id (fst (split_suffix (dropWhile ?P s)))"
             "opt_all build_id (snd (split_suffix (dropWhile ?P s)))"
    by (auto simp: parse_version_def Let_def split: list.splits if_splits)
  have "list_all (list_all is_digit) (split_on (CHR ''.'') (takeWhile ?P s))"
    using core num by (simp add: numeric_id_def)
  then have "\<And>x. x \<in> set (takeWhile ?P s) \<Longrightarrow> x = CHR ''.'' \<or> is_digit x"
    by (rule split_on_chars)
  then have c1: "list_all semver_char (takeWhile ?P s)"
    by (auto simp: list_all_iff semver_char_def id_char_def)
  have "dropWhile ?P s = [] \<or> hd (dropWhile ?P s) = CHR ''-'' \<or> hd (dropWhile ?P s) = CHR ''+''"
    using hd_dropWhile [of ?P s] by auto
  from split_suffix_chars [OF suf this] have c2: "list_all semver_char (dropWhile ?P s)" .
  have "list_all semver_char (takeWhile ?P s @ dropWhile ?P s)"
    using c1 c2 by (simp only: list_all_append)
  then show ?thesis by (simp only: takeWhile_dropWhile_id)
qed

lemma semver_char_not_bslash: "\<not> semver_char bslash"
  by (simp add: semver_char_def id_char_def is_alpha_def is_upper_def is_lower_def is_digit_def bslash_def)

lemma bslash_not_v: "bslash \<noteq> CHR ''v''" "bslash \<noteq> CHR ''V''"
  by (simp_all add: bslash_def)

lemma strip_v_chars:
  assumes "list_all semver_char (strip_v t)"
  shows "bslash \<notin> set t"
proof (cases t)
  case Nil
  then show ?thesis by simp
next
  case (Cons c cs)
  show ?thesis
  proof (cases "c = CHR ''v'' \<or> c = CHR ''V''")
    case True
    with assms Cons have "list_all semver_char cs" by auto
    then have "bslash \<notin> set cs" using semver_char_not_bslash by (auto simp: list_all_iff)
    with True Cons bslash_not_v show ?thesis by auto
  next
    case False
    with assms Cons have "list_all semver_char t" by auto
    then show ?thesis using semver_char_not_bslash by (auto simp: list_all_iff)
  qed
qed

lemma parsed_tag_plain: "parse_version (strip_v t) = Some v \<Longrightarrow> bslash \<notin> set t \<and> t \<noteq> []"
proof -
  assume a: "parse_version (strip_v t) = Some v"
  have "parse_version [] = None" by (simp add: parse_version_def)
  with a have "t \<noteq> []" by auto
  moreover from a have "list_all semver_char (strip_v t)" by (rule parse_version_chars)
  then have "bslash \<notin> set t" by (rule strip_v_chars)
  ultimately show ?thesis by simp
qed

text \<open>
  The resolver on a range that starts with \<^verbatim>\<open>~..\<close> and a valid release title.
\<close>

lemma tilde_prefix: "take 3 s = ''~..'' \<Longrightarrow> s = CHR ''~'' # CHR ''.'' # CHR ''.'' # drop 3 s"
  by (cases s; cases "tl s"; cases "tl (tl s)") auto

lemma tag_versions_start:
  "\<exists>tvs. tag_versions repo_tags [] = Inr tvs \<and>
         set tvs = {p. fst p \<in> set repo_tags \<and> parsed_pair p}"
  using tag_versions_set [of "[]" repo_tags] by simp

lemma resolve_closest:
  assumes pre: "take 3 commits_str = ''~..''"
    and title: "parse_version (strip_v release_title) = Some target"
    and ex: "\<exists>t \<in> set repo_tags. \<exists>v. parse_version (strip_v t) = Some v \<and> version_less v target"
  shows "\<exists>tag v. tag \<in> set repo_tags \<and> parse_version (strip_v tag) = Some v \<and> version_less v target
          \<and> (\<forall>t \<in> set repo_tags. \<forall>w. parse_version (strip_v t) = Some w \<and> version_less w target
                \<longrightarrow> \<not> version_less v w)
          \<and> process_commits_str commits_str release_title repo_tags
             = Inr (tag @ drop 1 commits_str,
                    [print_color WARNING (''Using commit range '' @ quoted (tag @ drop 1 commits_str))])"
proof -
  from tag_versions_start obtain tvs where
    tvs: "tag_versions repo_tags [] = Inr tvs"
    and set_tvs: "set tvs = {p. fst p \<in> set repo_tags \<and> parsed_pair p}" by blast
  let ?cands = "filter (\<lambda>p. version_less (snd p) target) tvs"
  from ex obtain t0 v0 where "t0 \<in> set repo_tags" "parse_version (strip_v t0) = Some v0"
    "version_less v0 target" by blast
  then have "(t0, v0) \<in> set ?cands" using set_tvs by (simp add: parsed_pair_def)
  then have "?cands \<noteq> []" by (metis empty_iff empty_set)
  from latest_semver_max [OF this] obtain tag v where
    latest: "latest_semver ?cands = Some tag" and mem: "(tag, v) \<in> set ?cands"
    and mx: "\<forall>q \<in> set ?cands. \<not> version_less v (snd q)" by blast
  from mem set_tvs have tag: "tag \<in> set repo_tags" "parse_version (strip_v tag) = Some v"
    "version_less v target" by (auto simp: parsed_pair_def)
  from parsed_tag_plain [OF tag(2)] have plain: "bslash \<notin> set tag" "tag \<noteq> []" by simp_all
  have maxim: "\<forall>t \<in> set repo_tags. \<forall>w. parse_version (strip_v t) = Some w \<and> version_less w target
                \<longrightarrow> \<not> version_less v w"
  proof (intro ballI allI impI)
    fix t w assume "t \<in> set repo_tags" "parse_version (strip_v t) = Some w \<and> version_less w target"
    then have "(t, w) \<in> set ?cands" using set_tvs by (simp add: parsed_pair_def)
    with mx show "\<not> version_less v w" by auto
  qed
  from tilde_prefix [OF pre] have cs: "commits_str = CHR ''~'' # drop 1 commits_str"
    by (cases commits_str) auto
  have "re_sub ''^~'' tag commits_str = Inr (tag @ drop 1 commits_str)"
    using re_sub_tilde [OF plain(1), of "drop 1 commits_str"] cs by simp
  then have "process_commits_str commits_str release_title repo_tags
             = Inr (tag @ drop 1 commits_str,
                    [print_color WARNING (''Using commit range '' @ quoted (tag @ drop 1 commits_str))])"
    using pre title tvs latest plain(2)
    by (simp add: process_commits_str_def clean_tag_strip closest_previous_semver_def
                  truthy_def use_tag_def Let_def)
  with tag maxim show ?thesis by blast
qed

lemma resolve_example:
  "process_commits_str ''~..HEAD'' ''v1.5.0'' [''v1.0.0'', ''v1.2.0'', ''v2.0.0'']
   = Inr (''v1.2.0..HEAD'', [print_color WARNING (''Using commit range '' @ quoted ''v1.2.0..HEAD'')])"
  by code_simp

text \<open>
  C6. With the tags \<^verbatim>\<open>v1.0.0\<close>, \<^verbatim>\<open>v1.2.0\<close>, \<^verbatim>\<open>v2.0.0\<close> and the release title
  \<^verbatim>\<open>v1.5.0\<close> the range \<^verbatim>\<open>~..HEAD\<close> resolves to \<^verbatim>\<open>v1.2.0..HEAD\<close>. In general, for
  every range that starts with \<^verbatim>\<open>~..\<close>, every release title that is a valid version once
  cleaned and every list of tags of which one at least is a valid version below the
  title's, the resolver puts in the place of the leading \<^verbatim>\<open>~\<close> a tag of the list whose
  version is valid, is below the title's version, and is maximal: no valid tag below the
  title's version has a version above it. It returns that range with one warning.
\<close>

theorem closest_previous_resolution:
  "process_commits_str ''~..HEAD'' ''v1.5.0'' [''v1.0.0'', ''v1.2.0'', ''v2.0.0'']
     = Inr (''v1.2.0..HEAD'',
            [print_color WARNING (''Using commit range '' @ quoted ''v1.2.0..HEAD'')])
   \<and> (\<forall>commits_str release_title repo_tags target.
        take 3 commits_str = ''~..''
        \<and> parse_version (strip_v release_title) = Some target
        \<and> (\<exists>t \<in> set repo_tags. \<exists>v. parse_version (strip_v t) = Some v \<and> version_less v target)
        \<longrightarrow>
        (\<exists>tag v. tag \<in> set repo_tags \<and> parse_version (strip_v tag) = Some v
           \<and> version_less v target
           \<and> (\<forall>t \<in> set repo_tags. \<forall>w.
                 parse_version (strip_v t) = Some w \<and> version_less w target
                 \<longrightarrow> \<not> version_less v w)
           \<and> process_commits_str commits_str release_title repo_tags
               = Inr (tag @ drop 1 commits_str,
                      [print_color WARNING
                         (''Using commit range '' @ quoted (tag @ drop 1 commits_str))])))"
  using resolve_example resolve_closest by blast

theorem closest_previous_resolution_witness:
  "take 3 ''~..HEAD'' = ''~..''
   \<and> parse_version (strip_v ''v1.5.0'')
       = Some \<lparr> major = 1, minor = 5, patch = 0, prerelease = None, build = None \<rparr>
   \<and> parse_version (strip_v ''v1.2.0'')
       = Some \<lparr> major = 1, minor = 2, patch = 0, prerelease = None, build = None \<rparr>
   \<and> version_less \<lparr> major = 1, minor = 2, patch = 0, prerelease = None, build = None \<rparr>
                   \<lparr> major = 1, minor = 5, patch = 0, prerelease = None, build = None \<rparr>
   \<and> (\<exists>tag. tag \<in> set [''v1.0.0'', ''v1.2.0'', ''v2.0.0'']
        \<and> process_commits_str ''~..HEAD'' ''v1.5.0'' [''v1.0.0'', ''v1.2.0'', ''v2.0.0'']
            = Inr (tag @ ''..HEAD'',
                   [print_color WARNING (''Using commit range '' @ quoted (tag @ ''..HEAD''))]))"
proof -
  let ?target = "\<lparr> major = 1, minor = 5, patch = 0, prerelease = None, build = None \<rparr>"
  let ?v = "\<lparr> major = 1, minor = 2, patch = 0, prerelease = None, build = None \<rparr>"
  have a: "take 3 ''~..HEAD'' = ''~..''" by simp
  have b: "parse_version (strip_v ''v1.5.0'') = Some ?target" by code_simp
  have c: "parse_version (strip_v ''v1.2.0'') = Some ?v" by code_simp
  have d: "version_less ?v ?target" by code_simp
  have e: "\<exists>t \<in> set [''v1.0.0'', ''v1.2.0'', ''v2.0.0'']. \<exists>v.
             parse_version (strip_v t) = Some v \<and> version_less v ?target"
    using c d by auto
  from closest_previous_resolution a b e
  have "\<exists>tag v. tag \<in> set [''v1.0.0'', ''v1.2.0'', ''v2.0.0''] \<and> parse_version (strip_v tag) = Some v
           \<and> version_less v ?target
           \<and> (\<forall>t \<in> set [''v1.0.0'', ''v1.2.0'', ''v2.0.0'']. \<forall>w.
                 parse_version (strip_v t) = Some w \<and> version_less w ?target
                 \<longrightarrow> \<not> version_less v w)
           \<and> process_commits_str ''~..HEAD'' ''v1.5.0'' [''v1.0.0'', ''v1.2.0'', ''v2.0.0'']
               = Inr (tag @ drop 1 ''~..HEAD'',
                      [print_color WARNING
                         (''Using commit range '' @ quoted (tag @ drop 1 ''~..HEAD''))])"
    by blast
  then have "\<exists>tag. tag \<in> set [''v1.0.0'', ''v1.2.0'', ''v2.0.0'']
        \<and> process_commits_str ''~..HEAD'' ''v1.5.0'' [''v1.0.0'', ''v1.2.0'', ''v2.0.0'']
            = Inr (tag @ ''..HEAD'',
                   [print_color WARNING (''Using commit range '' @ quoted (tag @ ''..HEAD''))])"
    by auto
  with a b c d show ?thesis by blast
qed

text \<open>
  C7, the counterexample. With no tag and the release title \<^verbatim>\<open>v1.5.0\<close> the range
  \<^verbatim>\<open>~..HEAD\<close> does not resolve to \<^verbatim>\<open>..HEAD\<close>, whatever is written to the error stream.
\<close>

theorem resolve_not_dots_head:
  "\<not> (\<exists>w. process_commits_str ''~..HEAD'' ''v1.5.0'' [] = Inr (''..HEAD'', w))"
proof -
  have "process_commits_str ''~..HEAD'' ''v1.5.0'' []
   = Inr (''HEAD'',
          [print_color WARNING
             (''No valid semver tags found, starting from beginning to commit '' @ quoted ''HEAD'')])"
    by code_simp
  then show ?thesis by simp
qed

text \<open>
  C7, amended. For every range that starts with \<^verbatim>\<open>~..\<close>, every release title that is a
  valid version once cleaned (as \<^verbatim>\<open>v1.5.0\<close> is) and every list of tags none of which is
  a valid version, the resolver returns normally: the range is what follows the leading
  \<^verbatim>\<open>~..\<close> (\<^verbatim>\<open>HEAD\<close> for \<^verbatim>\<open>~..HEAD\<close>), and one warning is written to the error stream.
\<close>

theorem resolve_from_beginning:
  assumes pre: "take 3 commits_str = ''~..''"
    and title: "parse_version (strip_v release_title) = Some target"
    and none: "list_all (\<lambda>t. parse_version (strip_v t) = None) repo_tags"
  shows "process_commits_str commits_str release_title repo_tags
         = Inr (drop 3 commits_str,
                [print_color WARNING
                   (''No valid semver tags found, starting from beginning to commit ''
                    @ quoted (drop 3 commits_str))])"
proof -
  from tag_versions_start obtain tvs where
    tvs: "tag_versions repo_tags [] = Inr tvs"
    and set_tvs: "set tvs = {p. fst p \<in> set repo_tags \<and> parsed_pair p}" by blast
  from none have "{p. fst p \<in> set repo_tags \<and> parsed_pair p} = {}"
    by (auto simp: list_all_iff parsed_pair_def)
  with set_tvs have "tvs = []" by simp
  moreover have "re_sub tilde_dots [] commits_str = Inr (drop 3 commits_str)"
    using re_sub_tilde_dots [of "drop 3 commits_str"] tilde_prefix [OF pre] by simp
  ultimately show ?thesis
    using pre title tvs
    by (simp add: process_commits_str_def clean_tag_strip closest_previous_semver_def
                  truthy_def from_beginning_def Let_def)
qed

theorem resolve_from_beginning_witness:
  "process_commits_str ''~..HEAD'' ''v1.5.0'' [''latest'', ''nightly-2024'']
   = Inr (''HEAD'',
          [print_color WARNING
             (''No valid semver tags found, starting from beginning to commit '' @ quoted ''HEAD'')])"
proof -
  have t: "parse_version (strip_v ''v1.5.0'')
           = Some \<lparr> major = 1, minor = 5, patch = 0, prerelease = None, build = None \<rparr>"
    by code_simp
  have n: "list_all (\<lambda>t. parse_version (strip_v t) = None) [''latest'', ''nightly-2024'']"
    by code_simp
  from resolve_from_beginning [OF _ t n, of "''~..HEAD''"] show ?thesis by simp
qed

section \<open>Properties of the default arguments of the aggregator\<close>

text \<open>
  Reading the store after two instances were added to it.
\<close>

lemma two_defaults_eq:
  "two_defaults h = (h @ [OInst 0 1 2, OInst 0 1 2], length h, Suc (length h))"
  by (simp add: two_defaults_def MarkdownContent_init_def default_values_def default_others_def
                default_breaking_changes_def)

lemma lookup_append_old: "a < length h \<Longrightarrow> lookup (h @ ys) a = lookup h a"
  by (simp add: lookup_def nth_append)

lemma lookup_inst1: "lookup (h @ [x, y]) (length h) = Some x"
  by (simp add: lookup_def nth_append)

lemma lookup_inst2: "lookup (h @ [x, y]) (Suc (length h)) = Some y"
  by (simp add: lookup_def nth_append)

lemma lookup_update: "lookup (h[l := v]) a = (if a < length h then (if a = l then Some v else lookup h a) else None)"
  by (simp add: lookup_def)

text \<open>
  C10. Take any store in which the default objects are intact, and build two aggregators
  with default arguments. They are two instances, and their fields hold the same three
  objects: the same dictionary, the same others list, the same breaking-changes list. An
  entry appended through the first (to the others list, to the breaking-changes list, or
  to the bucket of a heading) is read through the second. An aggregator built with
  default arguments after that reads the entry too: it starts empty only when no earlier
  one was changed.
\<close>

theorem default_aggregators_share:
  assumes "defaults_intact h" and "two_defaults h = (h2, a, b)"
  shows "a \<noteq> b
       \<and> values_of h2 a = values_of h2 b \<and> others_of h2 a = others_of h2 b
       \<and> breaking_changes_of h2 a = breaking_changes_of h2 b
       \<and> read_others h2 b \<noteq> None
       \<and> read_others (others_append h2 a x) b = map_option (\<lambda>xs. xs @ [x]) (read_others h2 b)
       \<and> read_breaking_changes h2 b \<noteq> None
       \<and> read_breaking_changes (breaking_changes_append h2 a x) b
           = map_option (\<lambda>xs. xs @ [x]) (read_breaking_changes h2 b)
       \<and> read_bucket (values_append h2 a heading x) b heading
           = Some ((case read_bucket h2 b heading of None \<Rightarrow> [] | Some xs \<Rightarrow> xs) @ [x])
       \<and> read_others (fst (MarkdownContent_init (others_append h2 a x) None None None))
                       (snd (MarkdownContent_init (others_append h2 a x) None None None))
           = map_option (\<lambda>xs. xs @ [x]) (read_others h2 b)"
proof -
  from assms(2) have h2: "h2 = h @ [OInst 0 1 2, OInst 0 1 2]" and a: "a = length h"
    and b: "b = Suc (length h)" by (simp_all add: two_defaults_eq)
  from assms(1) obtain kvs where
    d: "lookup h 0 = Some (ODict kvs)"
    and kvs: "list_all (\<lambda>kv. 2 < snd kv \<and> read_list h (snd kv) \<noteq> None) kvs"
    by (auto simp: defaults_intact_def default_values_def split: option.splits obj.splits)
  from assms(1) have "read_list h 1 \<noteq> None" and "read_list h 2 \<noteq> None"
    by (simp_all add: defaults_intact_def default_others_def default_breaking_changes_def)
  then obtain os bs where
    o: "lookup h 1 = Some (OList os)" and bc: "lookup h 2 = Some (OList bs)"
    by (auto simp: read_list_def split: option.splits obj.splits)
  from d o bc have len: "2 < length h" by (auto simp: lookup_def split: if_splits)
  then have lens: "0 < length h" "Suc 0 < length h" "h \<noteq> []" by auto
  have fa: "lookup h2 a = Some (OInst 0 1 2)" and fb: "lookup h2 b = Some (OInst 0 1 2)"
    unfolding h2 a b by (rule lookup_inst1, rule lookup_inst2)
  have old: "\<And>l. l < length h \<Longrightarrow> lookup h2 l = lookup h l"
    unfolding h2 by (rule lookup_append_old)
  have lh2: "length h2 = Suc (Suc (length h))" by (simp add: h2)
  have c1: "a \<noteq> b" by (simp add: a b)
  have c2: "values_of h2 a = values_of h2 b" "others_of h2 a = others_of h2 b"
    "breaking_changes_of h2 a = breaking_changes_of h2 b"
    by (simp_all add: values_of_def others_of_def breaking_changes_of_def fa fb)
  have c3: "read_others h2 b \<noteq> None"
    using len lens o by (simp add: read_others_def others_of_def fb read_list_def old)
  have c4: "read_others (others_append h2 a x) b = map_option (\<lambda>xs. xs @ [x]) (read_others h2 b)"
    using len lens o fb
    by (simp add: read_others_def others_of_def others_append_def fa list_append_def old
                  read_list_def lookup_update lh2 b)
  have c5: "read_breaking_changes h2 b \<noteq> None"
    using len lens bc by (simp add: read_breaking_changes_def breaking_changes_of_def fb read_list_def old)
  have c6: "read_breaking_changes (breaking_changes_append h2 a x) b
           = map_option (\<lambda>xs. xs @ [x]) (read_breaking_changes h2 b)"
    using len lens bc fb
    by (simp add: read_breaking_changes_def breaking_changes_of_def breaking_changes_append_def fa
                  list_append_def old read_list_def lookup_update lh2 b)
  have c7: "read_bucket (values_append h2 a heading x) b heading
           = Some ((case read_bucket h2 b heading of None \<Rightarrow> [] | Some xs \<Rightarrow> xs) @ [x])"
  proof (cases "map_of kvs heading")
    case None
    have d2: "lookup h2 0 = Some (ODict kvs)" using lens d by (simp add: old)
    have g: "get_values_ref h2 a heading
             = Some ((h2 @ [OList []])[0 := ODict (kvs @ [(heading, length h2)])], length h2)"
      using None by (simp add: get_values_ref_def values_of_def fa d2)
    have r0: "read_bucket h2 b heading = None"
      using None by (simp add: read_bucket_def values_of_def fb d2)
    let ?h3 = "list_append ((h2 @ [OList []])[0 := ODict (kvs @ [(heading, length h2)])]) (length h2) x"
    have h3: "?h3 = ((h2 @ [OList []])[0 := ODict (kvs @ [(heading, length h2)])])[length h2 := OList [x]]"
      using len lens by (simp add: list_append_def lookup_def lh2 nth_append)
    have "lookup ?h3 b = Some (OInst 0 1 2)"
      unfolding h3 using fb len lens by (simp add: lookup_def lh2 b nth_append h2)
    moreover have "lookup ?h3 0 = Some (ODict (kvs @ [(heading, length h2)]))"
      unfolding h3 using len lens by (simp add: lookup_def lh2)
    moreover have "lookup ?h3 (length h2) = Some (OList [x])"
      unfolding h3 by (simp add: lookup_def)
    ultimately have "read_bucket ?h3 b heading = Some [x]"
      using None by (simp add: read_bucket_def values_of_def read_list_def map_add_def)
    then show ?thesis using g r0 by (simp add: values_append_def)
  next
    case (Some l)
    have d2: "lookup h2 0 = Some (ODict kvs)" using lens d by (simp add: old)
    from Some have "(heading, l) \<in> set kvs" by (rule map_of_SomeD)
    with kvs have l: "2 < l" "read_list h l \<noteq> None" by (auto simp: list_all_iff)
    then obtain xs where xs: "lookup h l = Some (OList xs)" and ll: "l < length h"
      by (auto simp: read_list_def lookup_def split: if_splits obj.splits)
    have g: "get_values_ref h2 a heading = Some (h2, l)"
      using Some by (simp add: get_values_ref_def values_of_def fa d2)
    have r0: "read_bucket h2 b heading = Some xs"
      using Some xs ll by (simp add: read_bucket_def values_of_def fb d2 read_list_def old)
    have h3: "list_append h2 l x = h2[l := OList (xs @ [x])]"
      using xs ll by (simp add: list_append_def old)
    have "read_bucket (h2[l := OList (xs @ [x])]) b heading = Some (xs @ [x])"
      using Some l(1) ll len lens d2 fb
      by (simp add: read_bucket_def values_of_def read_list_def lookup_update lh2 b)
    then show ?thesis using g r0 h3 by (simp add: values_append_def)
  qed
  have h3: "others_append h2 a x = h2[1 := OList (os @ [x])]"
    using lens o by (simp add: others_append_def others_of_def fa list_append_def old)
  have rb: "read_others h2 b = Some os"
    using lens o by (simp add: read_others_def others_of_def fb read_list_def old)
  have i3: "MarkdownContent_init (h2[1 := OList (os @ [x])]) None None None
            = (h2[1 := OList (os @ [x])] @ [OInst 0 1 2], length h2)"
    by (simp add: MarkdownContent_init_def default_values_def default_others_def
                  default_breaking_changes_def)
  have "read_others (h2[1 := OList (os @ [x])] @ [OInst 0 1 2]) (length h2) = Some (os @ [x])"
    using lens by (simp add: read_others_def others_of_def lookup_def nth_append lh2 read_list_def)
  then have c8: "read_others (fst (MarkdownContent_init (others_append h2 a x) None None None))
                       (snd (MarkdownContent_init (others_append h2 a x) None None None))
           = map_option (\<lambda>xs. xs @ [x]) (read_others h2 b)"
    unfolding h3 i3 rb by simp
  from c1 c2 c3 c4 c5 c6 c7 c8 show ?thesis by simp
qed

theorem default_aggregators_share_witness:
  "defaults_intact class_store
   \<and> two_defaults class_store
       = ([ODict [], OList [], OList [], OInst 0 1 2, OInst 0 1 2], 3, 4)
   \<and> read_others [ODict [], OList [], OList [], OInst 0 1 2, OInst 0 1 2] 4 = Some []
   \<and> read_others (others_append [ODict [], OList [], OList [], OInst 0 1 2, OInst 0 1 2] 3 ''Bump deps'') 4
       = Some [''Bump deps'']
   \<and> read_bucket (values_append [ODict [], OList [], OList [], OInst 0 1 2, OInst 0 1 2] 3 ''feat'' ''Add login'')
         4 ''feat'' = Some [''Add login'']"
proof -
  have i: "defaults_intact class_store" by code_simp
  have t: "two_defaults class_store
           = ([ODict [], OList [], OList [], OInst 0 1 2, OInst 0 1 2], 3, 4)" by code_simp
  have r: "read_others [ODict [], OList [], OList [], OInst 0 1 2, OInst 0 1 2] 4 = Some []"
    by code_simp
  have b: "read_bucket [ODict [], OList [], OList [], OInst 0 1 2, OInst 0 1 2] 4 ''feat'' = None"
    by code_simp
  from default_aggregators_share [OF i t, of "''Bump deps''" "''feat''"]
  have "read_others (others_append [ODict [], OList [], OList [], OInst 0 1 2, OInst 0 1 2] 3 ''Bump deps'') 4
       = Some [''Bump deps'']"
    using r by simp
  moreover from default_aggregators_share [OF i t, of "''Add login''" "''feat''"]
  have "read_bucket (values_append [ODict [], OList [], OList [], OInst 0 1 2, OInst 0 1 2] 3 ''feat'' ''Add login'')
         4 ''feat'' = Some [''Add login'']"
    using b by simp
  ultimately show ?thesis using i t r by simp
qed

end
